theory Spec2Isabelle
  imports Complex_Main
begin

section \<open>Numbers and arrays of numpy\<close>

text \<open>
  The program computes with numpy's 64-bit floats. A float is modelled as a real
  number or one of the three special values of IEEE 754, and the two zeros are
  one (every divisor of the program is a radius of the schedule, twice a radius
  or a sum of kernel weights, whose zero is the positive one). The special values
  follow IEEE 754: a not-a-number operand gives a not-a-number, \<open>0/0\<close>,
  \<open>inf - inf\<close> and \<open>0 * inf\<close> are not-a-number, and a comparison with a
  not-a-number is false.

  The operations \<open>fadd\<close>, \<open>fmul\<close>, \<open>fdiv\<close> and the others of this section are
  the exact ones: they do not round and do not overflow. What is proved of them
  below is stated so that it does not rest on that: the order and the equalities
  of computed values are used, not the absence of rounding. The assignment of
  the BMUs, whose result depends on the rounding of the distances, is defined
  over arbitrary subtraction, multiplication and summation (\<open>float_ops\<close>), and
  its property is proved for all of them. The concrete inputs of the examples
  are chosen so that what is stated of them does not depend on the rounding.
\<close>

datatype npfloat = Fin real | PInf | NInf | NaN

datatype error = ValueError | IndexError | AttributeError | TypeError | LinAlgError

type_synonym matrix = "npfloat list list"

definition inf_of_sign :: "real \<Rightarrow> npfloat" where
  "inf_of_sign r = (if 0 < r then PInf else if r < 0 then NInf else NaN)"

fun fneg :: "npfloat \<Rightarrow> npfloat" where
  "fneg (Fin a) = Fin (- a)"
| "fneg PInf = NInf"
| "fneg NInf = PInf"
| "fneg NaN = NaN"

fun fadd :: "npfloat \<Rightarrow> npfloat \<Rightarrow> npfloat" where
  "fadd (Fin a) (Fin b) = Fin (a + b)"
| "fadd (Fin a) PInf = PInf"
| "fadd (Fin a) NInf = NInf"
| "fadd PInf (Fin b) = PInf"
| "fadd PInf PInf = PInf"
| "fadd PInf NInf = NaN"
| "fadd NInf (Fin b) = NInf"
| "fadd NInf PInf = NaN"
| "fadd NInf NInf = NInf"
| "fadd NaN y = NaN"
| "fadd x NaN = NaN"

definition fsub :: "npfloat \<Rightarrow> npfloat \<Rightarrow> npfloat" where
  "fsub x y = fadd x (fneg y)"

fun fmul :: "npfloat \<Rightarrow> npfloat \<Rightarrow> npfloat" where
  "fmul (Fin a) (Fin b) = Fin (a * b)"
| "fmul (Fin a) PInf = inf_of_sign a"
| "fmul (Fin a) NInf = inf_of_sign (- a)"
| "fmul PInf (Fin b) = inf_of_sign b"
| "fmul NInf (Fin b) = inf_of_sign (- b)"
| "fmul PInf PInf = PInf"
| "fmul PInf NInf = NInf"
| "fmul NInf PInf = NInf"
| "fmul NInf NInf = PInf"
| "fmul NaN y = NaN"
| "fmul x NaN = NaN"

fun fdiv :: "npfloat \<Rightarrow> npfloat \<Rightarrow> npfloat" where
  "fdiv (Fin a) (Fin b) = (if b = 0 then inf_of_sign a else Fin (a / b))"
| "fdiv (Fin a) PInf = Fin 0"
| "fdiv (Fin a) NInf = Fin 0"
| "fdiv PInf (Fin b) = (if b < 0 then NInf else PInf)"
| "fdiv NInf (Fin b) = (if b < 0 then PInf else NInf)"
| "fdiv PInf PInf = NaN"
| "fdiv PInf NInf = NaN"
| "fdiv NInf PInf = NaN"
| "fdiv NInf NInf = NaN"
| "fdiv NaN y = NaN"
| "fdiv x NaN = NaN"

fun fexp :: "npfloat \<Rightarrow> npfloat" where
  "fexp (Fin a) = Fin (exp a)"
| "fexp PInf = PInf"
| "fexp NInf = Fin 0"
| "fexp NaN = NaN"

fun fsqrt :: "npfloat \<Rightarrow> npfloat" where
  "fsqrt (Fin a) = (if a < 0 then NaN else Fin (sqrt a))"
| "fsqrt PInf = PInf"
| "fsqrt NInf = NaN"
| "fsqrt NaN = NaN"

text \<open>\<open>x <= y\<close> on floats.\<close>

fun fle :: "npfloat \<Rightarrow> npfloat \<Rightarrow> bool" where
  "fle (Fin a) (Fin b) = (a \<le> b)"
| "fle (Fin a) PInf = True"
| "fle (Fin a) NInf = False"
| "fle PInf (Fin b) = False"
| "fle PInf PInf = True"
| "fle PInf NInf = False"
| "fle NInf (Fin b) = True"
| "fle NInf PInf = True"
| "fle NInf NInf = True"
| "fle NaN y = False"
| "fle x NaN = False"

text \<open>\<open>np.clip(x, 0, 1)\<close>: the minimum with 1 of the maximum with 0; a not-a-number stays.\<close>

fun clip01 :: "npfloat \<Rightarrow> npfloat" where
  "clip01 (Fin a) = Fin (min (max a 0) 1)"
| "clip01 PInf = Fin 1"
| "clip01 NInf = Fin 0"
| "clip01 NaN = NaN"

definition isnan :: "npfloat \<Rightarrow> bool" where
  "isnan x = (x = NaN)"

text \<open>\<open>.sum()\<close> of a vector of floats.\<close>

primrec fsum :: "npfloat list \<Rightarrow> npfloat" where
  "fsum [] = Fin 0"
| "fsum (x # xs) = fadd x (fsum xs)"

text \<open>
  A 2-D array is the list of its rows, and a 3-D array the list of its planes; the
  theorems assume the rows of one array to have one length. The number of columns
  of a 2-D array is read from its first row, so that the empty list is the array
  of shape (0, 0).
\<close>

definition ncols :: "'a list list \<Rightarrow> nat" where
  "ncols M = (case M of [] \<Rightarrow> 0 | r # _ \<Rightarrow> length r)"

text \<open>The first error of a list of results, or all their values.\<close>

primrec collect :: "(error + 'a) list \<Rightarrow> error + 'a list" where
  "collect [] = Inr []"
| "collect (r # rs) =
     (case r of Inl e \<Rightarrow> Inl e
      | Inr v \<Rightarrow> (case collect rs of Inl e \<Rightarrow> Inl e | Inr vs \<Rightarrow> Inr (v # vs)))"

text \<open>
  An elementwise operation on two vectors under numpy's broadcasting: equal
  lengths pair up, a vector of length one is repeated, anything else is a
  \<open>ValueError\<close>.
\<close>

definition bcast2 :: "('a \<Rightarrow> 'b \<Rightarrow> 'c) \<Rightarrow> 'a list \<Rightarrow> 'b list \<Rightarrow> error + 'c list" where
  "bcast2 g xs ys =
     (if length xs = length ys then Inr (map2 g xs ys)
      else if length xs = 1 then Inr (map (g (hd xs)) ys)
      else if length ys = 1 then Inr (map (\<lambda>x. g x (hd ys)) xs)
      else Inl ValueError)"

text \<open>
  \<open>.argmin()\<close> of a vector, as numpy computes it: the first element is the
  running minimum; a later element replaces it when it is not \<open>>=\<close> the minimum,
  and the scan stops at the first not-a-number. An empty vector is a \<open>ValueError\<close>.
\<close>

fun argmin_loop :: "npfloat \<Rightarrow> nat \<Rightarrow> nat \<Rightarrow> npfloat list \<Rightarrow> nat" where
  "argmin_loop mp mi i [] = mi"
| "argmin_loop mp mi i (x # xs) =
     (if \<not> fle mp x then (if isnan x then i else argmin_loop x i (Suc i) xs)
      else argmin_loop mp mi (Suc i) xs)"

definition argmin :: "npfloat list \<Rightarrow> error + nat" where
  "argmin xs =
     (case xs of [] \<Rightarrow> Inl ValueError
      | x # r \<Rightarrow> Inr (if isnan x then 0 else argmin_loop x 0 1 r))"

text \<open>\<open>M[idx]\<close> for an array of row indices: an index past the last row is an \<open>IndexError\<close>.\<close>

definition take_rows :: "'a list \<Rightarrow> nat list \<Rightarrow> error + 'a list" where
  "take_rows M idx =
     (if list_all (\<lambda>b. b < length M) idx then Inr (map (\<lambda>b. M ! b) idx) else Inl IndexError)"

text \<open>
  \<open>np.linspace(start, stop, num)\<close>: \<open>num\<close> samples \<open>i * step + start\<close> with
  \<open>step = (stop - start) / (num - 1)\<close>, the last one overwritten by \<open>stop\<close> when
  there is more than one; a single sample is \<open>start\<close>; a negative \<open>num\<close> is a
  \<open>ValueError\<close>.
\<close>

definition linspace :: "real \<Rightarrow> real \<Rightarrow> int \<Rightarrow> error + real list" where
  "linspace start stop num =
     (if num < 0 then Inl ValueError
      else let dv = num - 1;
               delta = stop - start;
               y0 = (if 0 < dv then map (\<lambda>i. real_of_int i * (delta / real_of_int dv)) [0..num - 1]
                     else map (\<lambda>i. real_of_int i * delta) [0..num - 1]);
               y = map (\<lambda>v. v + start) y0
           in Inr (if 1 < num then y[nat (num - 1) := stop] else y))"

section \<open>The class SOM\<close>

record som =
  n_rows :: int
  n_cols :: int
  neighbourhood :: string
  n_epochs :: int
  h0_Rmax :: real
  hN_R1 :: real
  Rmax :: real
  initial :: string
  bmus :: "nat list option"
  wts :: "matrix option"
  inertia :: "npfloat option"
  d2mat :: "int list list"
  kernels :: "npfloat list list list option"
  dmat :: "matrix option"

text \<open>
  \<open>inertia\<close> is the attribute \<open>inertia_\<close> of the source. \<open>bmus\<close>, \<open>wts\<close> and
  \<open>inertia\<close> are \<open>None\<close> after construction. \<open>kernels\<close> and
  \<open>dmat\<close> are attributes the constructor does not create: \<open>None\<close> stands for the
  missing attribute, whose read is an \<open>AttributeError\<close>.
\<close>

subsection \<open>\<open>SOM.__init__\<close>\<close>

text \<open>
  The constructor checks none of its arguments. With no \<open>Rmax\<close> given it calls
  \<open>np.sqrt\<close> on the Python integer \<open>(n_cols-1)**2 + (n_rows-1)**2\<close>, which numpy
  converts to a 64-bit integer, signed or unsigned: from \<open>2**64\<close> on there is none,
  and the call is a \<open>TypeError\<close>, raised before the lattice is built.
  \<open>np.arange\<close> of a count that is not positive is the empty array. The storage
  the arrays need is not modelled.
\<close>

definition SOM_init ::
  "int \<Rightarrow> int \<Rightarrow> string \<Rightarrow> int \<Rightarrow> real \<Rightarrow> real \<Rightarrow> real option \<Rightarrow> string \<Rightarrow> error + som" where
  "SOM_init nr nc nbh ne h0 hN Rm ini =
     (if Rm = None \<and> 2 ^ 64 \<le> (nc - 1)\<^sup>2 + (nr - 1)\<^sup>2 then Inl TypeError
      else
        let ixs = [0..nr * nc - 1];
            rows = map (\<lambda>i. i mod nc) ixs;
            cols = map (\<lambda>i. i div nc) ixs
        in Inr \<lparr> n_rows = nr, n_cols = nc, neighbourhood = nbh, n_epochs = ne,
                 h0_Rmax = h0, hN_R1 = hN,
                 Rmax = (case Rm of None \<Rightarrow> sqrt (real_of_int ((nc - 1)\<^sup>2 + (nr - 1)\<^sup>2))
                         | Some r \<Rightarrow> r),
                 initial = ini, bmus = None, wts = None, inertia = None,
                 d2mat = map (\<lambda>(ri, ci). map (\<lambda>(rj, cj). (ri - rj)\<^sup>2 + (ci - cj)\<^sup>2) (zip rows cols))
                           (zip rows cols),
                 kernels = None, dmat = None \<rparr>)"

subsection \<open>\<open>SOM.calc_BMUs\<close>\<close>

text \<open>
  The BMU of a sample is decided by comparing sums the machine has rounded, and
  rounding can make two different distances equal or turn their order. The
  method is therefore modelled over the floating-point operations it applies:
  \<open>f_sub\<close> and \<open>f_mul\<close> are the subtraction and the multiplication of two
  floats, \<open>f_sum\<close> is numpy's sum of a vector (which adds in an order of its
  own). Nothing is assumed of them: what is proved for all of them holds of the
  machine's. \<open>exact_ops\<close> are the operations without rounding, with which the
  rest of the model computes.
\<close>

record float_ops =
  f_sub :: "npfloat \<Rightarrow> npfloat \<Rightarrow> npfloat"
  f_mul :: "npfloat \<Rightarrow> npfloat \<Rightarrow> npfloat"
  f_sum :: "npfloat list \<Rightarrow> npfloat"

definition exact_ops :: float_ops where
  "exact_ops = \<lparr>f_sub = fsub, f_mul = fmul, f_sum = fsum\<rparr>"

text \<open>\<open>((x - w)**2).sum()\<close> for one sample and one neuron.\<close>

definition sqdist_by :: "float_ops \<Rightarrow> npfloat list \<Rightarrow> npfloat list \<Rightarrow> error + npfloat" where
  "sqdist_by ops x w =
     (case bcast2 (f_sub ops) x w of Inl e \<Rightarrow> Inl e
      | Inr d \<Rightarrow> Inr (f_sum ops (map (\<lambda>v. f_mul ops v v) d)))"

text \<open>\<open>((A[:,None] - B)**2).sum(axis=2)\<close>: the squared distances of every row of A to every row of B.\<close>

definition sqdists_by :: "float_ops \<Rightarrow> matrix \<Rightarrow> matrix \<Rightarrow> error + matrix" where
  "sqdists_by ops A B = collect (map (\<lambda>x. collect (map (\<lambda>w. sqdist_by ops x w) B)) A)"

definition calc_BMUs_by :: "float_ops \<Rightarrow> 'a som_scheme \<Rightarrow> matrix \<Rightarrow> error + nat list" where
  "calc_BMUs_by ops s X =
     (case wts s of None \<Rightarrow> Inl TypeError
      | Some W \<Rightarrow>
          (case sqdists_by ops X W of Inl e \<Rightarrow> Inl e
           | Inr D \<Rightarrow> if W = [] then Inl ValueError else collect (map argmin D)))"

text \<open>The same without rounding.\<close>

definition sqdist :: "npfloat list \<Rightarrow> npfloat list \<Rightarrow> error + npfloat" where
  "sqdist = sqdist_by exact_ops"

definition sqdists :: "matrix \<Rightarrow> matrix \<Rightarrow> error + matrix" where
  "sqdists = sqdists_by exact_ops"

definition calc_BMUs :: "'a som_scheme \<Rightarrow> matrix \<Rightarrow> error + nat list" where
  "calc_BMUs = calc_BMUs_by exact_ops"

subsection \<open>\<open>SOM.make_kernels\<close>\<close>

definition bubble_k :: "real \<Rightarrow> int \<Rightarrow> npfloat" where
  "bubble_k sig d = (if fle (fsqrt (Fin (real_of_int d))) (Fin sig) then Fin 1 else Fin 0)"

definition linear_k :: "real \<Rightarrow> int \<Rightarrow> npfloat" where
  "linear_k sig d = clip01 (fsub (Fin 1) (fdiv (fsqrt (Fin (real_of_int d))) (Fin sig)))"

definition exponential_k :: "real \<Rightarrow> int \<Rightarrow> npfloat" where
  "exponential_k sig d =
     fexp (fneg (fdiv (fsqrt (Fin (real_of_int d))) (fmul (Fin 2) (Fin sig))))"

definition gaussian_k :: "real \<Rightarrow> int \<Rightarrow> npfloat" where
  "gaussian_k sig d = fexp (fneg (fdiv (Fin (real_of_int d)) (fmul (Fin 2) (Fin sig))))"

text \<open>The kernel tensor of one family: one plane per radius of the schedule.\<close>

definition kernel_tensor :: "(real \<Rightarrow> int \<Rightarrow> npfloat) \<Rightarrow> real list \<Rightarrow> int list list \<Rightarrow> npfloat list list list" where
  "kernel_tensor k sigs D2 = map (\<lambda>sig. map (map (k sig)) D2) sigs"

text \<open>
  A method returns the object as it left it, what it printed, and its result: the
  value it returned (\<open>()\<close> for Python's \<open>None\<close> where nothing else is returned) or
  the exception it raised.
\<close>

text \<open>The radius schedule, \<open>sigs = np.linspace(self.Rmax, 0.5, self.n_epochs)\<close>.\<close>

definition sigs :: "'a som_scheme \<Rightarrow> error + real list" where
  "sigs s = linspace (Rmax s) (1 / 2) (n_epochs s)"

definition make_kernels :: "'a som_scheme \<Rightarrow> 'a som_scheme \<times> string list \<times> (error + unit)" where
  "make_kernels s =
     (case sigs s of
        Inl e \<Rightarrow> (s, [], Inl e)
      | Inr sg \<Rightarrow>
          if neighbourhood s = ''bubble'' then
            (s\<lparr>kernels := Some (kernel_tensor bubble_k sg (d2mat s))\<rparr>, [], Inr ())
          else if neighbourhood s = ''linear'' then
            (s\<lparr>kernels := Some (kernel_tensor linear_k sg (d2mat s))\<rparr>, [], Inr ())
          else if neighbourhood s = ''exponential'' then
            (s\<lparr>kernels := Some (kernel_tensor exponential_k sg (d2mat s))\<rparr>, [], Inr ())
          else if neighbourhood s = ''gaussian'' then
            (s\<lparr>kernels := Some (kernel_tensor gaussian_k sg (d2mat s))\<rparr>, [], Inr ())
          else (s, [''Invalid neighbourhood''], Inr ()))"

subsection \<open>\<open>SOM.fit\<close>\<close>

text \<open>
  The initial weights come from numpy's random generator and, in the \<open>pca\<close>
  mode, from its symmetric eigensolver. What they deliver is an input of the model:
  \<open>random_wts\<close> is the array \<open>np.random.random(size=(n_rows*n_cols, n_feat))\<close>
  returns, and \<open>pca_wts\<close> is the outcome of the \<open>pca\<close> branch (lines 131 to 151
  of the source): the weights it assigns, or the exception it raises (the
  eigensolver on a matrix with a not-a-number, a negative noise scale, fewer than
  two features).
\<close>

record draw =
  random_wts :: matrix
  pca_wts :: "error + matrix"

text \<open>
  The body of the epoch loop, for epoch \<open>i\<close>. \<open>self.kernels[i][bmus]\<close> holds, for
  every sample, the row of the epoch's kernel at the sample's BMU. The numerator
  \<open>(X[:,None] * self.kernels[i][bmus][:,:,None]).sum(axis=0)\<close> multiplies every
  sample by every entry of its kernel row and adds the products over the samples,
  starting from zeros of the shape (neurons, features) of the result.
\<close>

definition epoch_step :: "'a som_scheme \<Rightarrow> matrix \<Rightarrow> nat \<Rightarrow> 'a som_scheme \<times> (error + unit)" where
  "epoch_step s X i =
     (case calc_BMUs s X of
        Inl e \<Rightarrow> (s, Inl e)
      | Inr b \<Rightarrow>
          (case kernels s of
             None \<Rightarrow> (s, Inl AttributeError)
           | Some K \<Rightarrow>
               if length K \<le> i then (s, Inl IndexError)
               else
                 (case take_rows (K ! i) b of
                    Inl e \<Rightarrow> (s, Inl e)
                  | Inr Kb \<Rightarrow>
                      let k = ncols (K ! i);
                          f = ncols X;
                          prods = map2 (\<lambda>x kr. map (\<lambda>kj. map (\<lambda>xc. fmul xc kj) x) kr) X Kb;
                          num = foldr (map2 (map2 fadd)) prods (replicate k (replicate f (Fin 0)));
                          denom = foldr (map2 fadd) Kb (replicate k (Fin 0))
                      in (s\<lparr>wts := Some (map2 (\<lambda>nr d. map (\<lambda>n. fdiv n d) nr) num denom)\<rparr>, Inr ()))))"

text \<open>\<open>for i in range(self.n_epochs)\<close>: the loop stops at the first exception.\<close>

primrec epochs :: "'a som_scheme \<Rightarrow> matrix \<Rightarrow> nat list \<Rightarrow> 'a som_scheme \<times> (error + unit)" where
  "epochs s X [] = (s, Inr ())"
| "epochs s X (i # rest) =
     (case epoch_step s X i of
        (s', Inl e) \<Rightarrow> (s', Inl e)
      | (s', Inr u) \<Rightarrow> epochs s' X rest)"

text \<open>The statements after the loop: the final BMUs, the distance matrix of the neurons, the inertia.\<close>

definition finalize :: "'a som_scheme \<Rightarrow> matrix \<Rightarrow> 'a som_scheme \<times> (error + unit)" where
  "finalize s X =
     (case calc_BMUs s X of
        Inl e \<Rightarrow> (s, Inl e)
      | Inr b \<Rightarrow>
          let s1 = s\<lparr>bmus := Some b\<rparr> in
          (case wts s1 of
             None \<Rightarrow> (s1, Inl TypeError)
           | Some W \<Rightarrow>
               (case sqdists W W of
                  Inl e \<Rightarrow> (s1, Inl e)
                | Inr D \<Rightarrow>
                    let s2 = s1\<lparr>dmat := Some (map (map fsqrt) D)\<rparr> in
                    (case collect (map2 (bcast2 fsub) X (map (\<lambda>j. W ! j) b)) of
                       Inl e \<Rightarrow> (s2, Inl e)
                     | Inr R \<Rightarrow>
                         (s2\<lparr>inertia := Some (fsum (concat (map (map (\<lambda>v. fmul v v)) R)))\<rparr>,
                          Inr ())))))"

text \<open>From \<open>self.make_kernels()\<close> on: the value \<open>make_kernels\<close> returns is not looked at.\<close>

definition train :: "'a som_scheme \<Rightarrow> matrix \<Rightarrow> 'a som_scheme \<times> string list \<times> (error + unit)" where
  "train s X =
     (case make_kernels s of
        (s1, out, Inl e) \<Rightarrow> (s1, out, Inl e)
      | (s1, out, Inr u) \<Rightarrow>
          (case epochs s1 X [0..<nat (n_epochs s1)] of
             (s2, Inl e) \<Rightarrow> (s2, out, Inl e)
           | (s2, Inr u') \<Rightarrow> (case finalize s2 X of (s3, r) \<Rightarrow> (s3, out, r))))"

definition fit :: "'a som_scheme \<Rightarrow> matrix \<Rightarrow> draw \<Rightarrow> 'a som_scheme \<times> string list \<times> (error + unit)" where
  "fit s X d =
     (if initial s = ''random'' then
        (if n_rows s * n_cols s < 0 then (s, [], Inl ValueError)
         else train (s\<lparr>wts := Some (random_wts d)\<rparr>) X)
      else if initial s = ''pca'' then
        (case pca_wts d of
           Inl e \<Rightarrow> (s, [], Inl e)
         | Inr W \<Rightarrow> train (s\<lparr>wts := Some W\<rparr>) X)
      else (s, [''initial must be random or pca''], Inr ()))"

subsection \<open>\<open>SOM.predict\<close>\<close>

text \<open>The result is \<open>None\<close> or the array \<open>self.bmus\<close> holds, which is \<open>None\<close> until a fit has run to its end.\<close>

definition predict :: "'a som_scheme \<Rightarrow> matrix \<Rightarrow> 'a som_scheme \<times> string list \<times> (error + nat list option)" where
  "predict s X =
     (if wts s = None then (s, [''Train SOM before classifying''], Inr None)
      else (s, [], Inr (bmus s)))"

section \<open>The class SOM_cluster\<close>

text \<open>
  \<open>labels\<close> is the attribute \<open>labels_\<close> of the source. It holds
  \<open>som.bmus[self.bmus]\<close>: a vector, or, should \<open>self.bmus\<close> be
  \<open>None\<close>, the vector \<open>som.bmus\<close> under one more axis.
\<close>

datatype label_array = Vec "nat list" | Mat "nat list list"

record som_cluster = som +
  n_clusters :: int
  neuron_to_label :: "npfloat list"
  labels :: "label_array option"

subsection \<open>\<open>SOM_cluster.__init__\<close>\<close>

text \<open>\<open>np.empty\<close> of a negative size is a \<open>ValueError\<close>.\<close>

definition SOM_cluster_init ::
  "int \<Rightarrow> int \<Rightarrow> int \<Rightarrow> string \<Rightarrow> int \<Rightarrow> real \<Rightarrow> real \<Rightarrow> real option \<Rightarrow> string \<Rightarrow> error + som_cluster" where
  "SOM_cluster_init ncl nr nc nbh ne h0 hN Rm ini =
     (case SOM_init nr nc nbh ne h0 hN Rm ini of
        Inl e \<Rightarrow> Inl e
      | Inr s \<Rightarrow>
          if nc * nr < 0 then Inl ValueError
          else Inr (som.extend s
                 (som_cluster.fields ncl (replicate (nat (nc * nr)) NaN) None)))"

subsection \<open>\<open>SOM_cluster.fit\<close>\<close>

text \<open>\<open>a[:] = v\<close> for vectors: \<open>v\<close> has the length of \<open>a\<close>, or length one and is repeated.\<close>

definition assign_all :: "npfloat list \<Rightarrow> npfloat list \<Rightarrow> error + npfloat list" where
  "assign_all old new =
     (if length new = length old then Inr new
      else if length new = 1 then Inr (replicate (length old) (hd new))
      else Inl ValueError)"

text \<open>
  The order numpy sorts floats in: \<open>sort_lt a b\<close> says that \<open>a\<close> comes strictly
  before \<open>b\<close>. A not-a-number comes after every number, the infinities included,
  and not before another not-a-number.
\<close>

definition sort_lt :: "npfloat \<Rightarrow> npfloat \<Rightarrow> bool" where
  "sort_lt a b = (if isnan b then \<not> isnan a else if isnan a then False else \<not> fle b a)"

primrec insert_np :: "npfloat \<Rightarrow> npfloat list \<Rightarrow> npfloat list" where
  "insert_np x [] = [x]"
| "insert_np x (y # ys) = (if sort_lt y x then y # insert_np x ys else x # y # ys)"

definition sort_np :: "npfloat list \<Rightarrow> npfloat list" where
  "sort_np xs = foldr insert_np xs []"

text \<open>
  \<open>np.unique(xs, return_counts=True)\<close>: the values in ascending order, each with
  its number of occurrences. The labels are floats, as \<open>neuron_to_label\<close> stores
  them; the not-a-numbers among them count as one value, the last (numpy 1.21
  and later).
\<close>

definition np_unique :: "npfloat list \<Rightarrow> npfloat list \<times> nat list" where
  "np_unique xs = (let vs = sort_np (remdups xs) in (vs, map (count_list xs) vs))"

text \<open>\<open>np.argmax\<close> of a non-empty vector of counts: the first index of the maximum.\<close>

fun argmax_loop :: "nat \<Rightarrow> nat \<Rightarrow> nat \<Rightarrow> nat list \<Rightarrow> nat" where
  "argmax_loop mp mi i [] = mi"
| "argmax_loop mp mi i (x # xs) =
     (if mp < x then argmax_loop x i (Suc i) xs else argmax_loop mp mi (Suc i) xs)"

definition argmax :: "nat list \<Rightarrow> nat" where
  "argmax xs = (case xs of [] \<Rightarrow> 0 | x # r \<Rightarrow> argmax_loop x 0 1 r)"

text \<open>
  \<open>y[self.bmus == i]\<close>: the labels of the samples whose BMU is neuron \<open>i\<close>. A mask
  of another length than \<open>y\<close> is an \<open>IndexError\<close>; with \<open>self.bmus\<close> \<open>None\<close> the
  comparison is \<open>False\<close> and selects nothing.
\<close>

definition labels_at :: "nat list option \<Rightarrow> npfloat list \<Rightarrow> nat \<Rightarrow> error + npfloat list" where
  "labels_at b y i =
     (case b of
        None \<Rightarrow> Inr []
      | Some bs \<Rightarrow>
          if length bs = length y then Inr (map snd (filter (\<lambda>(bi, yi). bi = i) (zip bs y)))
          else Inl IndexError)"

text \<open>
  The majority vote, \<open>for i in range(self.n_cols*self.n_rows)\<close>. The labels
  assigned before an exception stay assigned.
\<close>

primrec vote :: "nat list option \<Rightarrow> npfloat list \<Rightarrow> npfloat list \<Rightarrow> nat list \<Rightarrow> npfloat list \<times> (error + unit)" where
  "vote b y n2l [] = (n2l, Inr ())"
| "vote b y n2l (i # rest) =
     (case labels_at b y i of
        Inl e \<Rightarrow> (n2l, Inl e)
      | Inr labels_i \<Rightarrow>
          (case np_unique labels_i of
             (vals, counts) \<Rightarrow>
               if 0 < length counts then
                 (if i < length n2l then vote b y (n2l[i := vals ! argmax counts]) rest
                  else (n2l, Inl IndexError))
               else vote b y n2l rest))"

text \<open>
  Element 0 of \<open>argsort\<close> of a vector: the index of a least element in numpy's
  sort order. The sort is numpy's default one, which is not stable: which of
  several least elements comes first is the library's choice, and an input of the
  model. \<open>pick\<close> names, for a vector, the index the sort puts first; the model
  takes it when it is the index of a least element, and the lowest such index
  otherwise. An empty vector has no element 0, an \<open>IndexError\<close>.
\<close>

fun argfirst_loop :: "npfloat \<Rightarrow> nat \<Rightarrow> nat \<Rightarrow> npfloat list \<Rightarrow> nat" where
  "argfirst_loop mp mi i [] = mi"
| "argfirst_loop mp mi i (x # xs) =
     (if sort_lt x mp then argfirst_loop x i (Suc i) xs else argfirst_loop mp mi (Suc i) xs)"

definition argsort_first :: "(npfloat list \<Rightarrow> nat) \<Rightarrow> npfloat list \<Rightarrow> error + nat" where
  "argsort_first pick xs =
     (case xs of [] \<Rightarrow> Inl IndexError
      | x # r \<Rightarrow>
          Inr (let m = argfirst_loop x 0 1 r; c = pick xs
               in if c < length xs \<and> \<not> sort_lt (xs ! m) (xs ! c) then c else m))"

text \<open>
  The backfill: \<open>np.where(np.isnan(n2l), np.inf, dmat)\<close> sets the columns of the
  unlabelled neurons to infinity, the nearest neuron of every row is element 0 of
  its \<open>argsort\<close>, and an unlabelled neuron takes the label of its nearest neuron.
\<close>

definition backfill :: "(npfloat list \<Rightarrow> nat) \<Rightarrow> matrix \<Rightarrow> npfloat list \<Rightarrow> error + npfloat list" where
  "backfill pick D n2l =
     (case collect (map (bcast2 (\<lambda>c d. if c then PInf else d) (map isnan n2l)) D) of
        Inl e \<Rightarrow> Inl e
      | Inr dmat_nonan \<Rightarrow>
          (case collect (map (argsort_first pick) dmat_nonan) of
             Inl e \<Rightarrow> Inl e
           | Inr nearest_nonan \<Rightarrow>
               (case take_rows n2l nearest_nonan of
                  Inl e \<Rightarrow> Inl e
                | Inr cand \<Rightarrow> bcast2 (\<lambda>a l. if isnan l then a else l) cand n2l)))"

text \<open>
  \<open>fit\<close> takes two draws, one for each trainer it runs, and the choice of the sort
  of the backfill. The second trainer is \<open>SOM(1, self.n_clusters)\<close>, every other
  parameter at the default of \<open>SOM.__init__\<close>. The labels \<open>y\<close> are floats.
\<close>

definition SOM_cluster_fit ::
  "som_cluster \<Rightarrow> matrix \<Rightarrow> npfloat list option \<Rightarrow> draw \<Rightarrow> draw \<Rightarrow> (npfloat list \<Rightarrow> nat)
     \<Rightarrow> som_cluster \<times> string list \<times> (error + unit)" where
  "SOM_cluster_fit c X y d1 d2 pick =
     (case fit c X d1 of
        (c1, out, Inl e) \<Rightarrow> (c1, out, Inl e)
      | (c1, out, Inr u) \<Rightarrow>
          (case y of
             None \<Rightarrow>
               (case SOM_init 1 (n_clusters c1) ''gaussian'' 10 (1 / 2) (1 / 100) None ''pca'' of
                  Inl e \<Rightarrow> (c1, out, Inl e)
                | Inr som0 \<Rightarrow>
                    (case wts c1 of
                       None \<Rightarrow> (c1, out, Inl AttributeError)
                     | Some W \<Rightarrow>
                         (case fit som0 W d2 of
                            (som1, out2, Inl e) \<Rightarrow> (c1, out @ out2, Inl e)
                          | (som1, out2, Inr u2) \<Rightarrow>
                              (case bmus som1 of
                                 None \<Rightarrow>
                                   (c1\<lparr>neuron_to_label := replicate (length (neuron_to_label c1)) NaN\<rparr>,
                                    out @ out2, Inl TypeError)
                               | Some b2 \<Rightarrow>
                                   (case assign_all (neuron_to_label c1) (map (\<lambda>j. Fin (real j)) b2) of
                                      Inl e \<Rightarrow> (c1, out @ out2, Inl e)
                                    | Inr n2l \<Rightarrow>
                                        let c2 = c1\<lparr>neuron_to_label := n2l\<rparr> in
                                        (case bmus c2 of
                                           None \<Rightarrow> (c2\<lparr>labels := Some (Mat [b2])\<rparr>, out @ out2, Inr ())
                                         | Some b1 \<Rightarrow>
                                             (case take_rows b2 b1 of
                                                Inl e \<Rightarrow> (c2, out @ out2, Inl e)
                                              | Inr l \<Rightarrow> (c2\<lparr>labels := Some (Vec l)\<rparr>, out @ out2, Inr ()))))))))
           | Some ys \<Rightarrow>
               (case vote (bmus c1) ys (neuron_to_label c1) [0..<nat (n_cols c1 * n_rows c1)] of
                  (n2l, Inl e) \<Rightarrow> (c1\<lparr>neuron_to_label := n2l\<rparr>, out, Inl e)
                | (n2l, Inr u2) \<Rightarrow>
                    let c2 = c1\<lparr>neuron_to_label := n2l\<rparr> in
                    (case dmat c2 of
                       None \<Rightarrow> (c2, out, Inl AttributeError)
                     | Some D \<Rightarrow>
                         (case backfill pick D n2l of
                            Inl e \<Rightarrow> (c2, out, Inl e)
                          | Inr n2l' \<Rightarrow> (c2\<lparr>neuron_to_label := n2l'\<rparr>, out, Inr ()))))))"

subsection \<open>\<open>SOM_cluster.predict\<close>\<close>

definition SOM_cluster_predict ::
  "som_cluster \<Rightarrow> matrix \<Rightarrow> som_cluster \<times> string list \<times> (error + npfloat list option)" where
  "SOM_cluster_predict c X =
     (if list_all isnan (neuron_to_label c) then
        (c, [''Fit SOM clusterer/classifier before predicting''], Inr None)
      else
        (case calc_BMUs c X of
           Inl e \<Rightarrow> (c, [], Inl e)
         | Inr b \<Rightarrow>
             (case take_rows (neuron_to_label c) b of
                Inl e \<Rightarrow> (c, [], Inl e)
              | Inr l \<Rightarrow> (c, [], Inr (Some l)))))"

section \<open>Notions of the specification\<close>

text \<open>
  The specification's squared Euclidean distance of a sample and a neuron over
  \<open>f\<close> features, \<open>sum_c (x[c] - w[c])^2\<close>, as the given operations compute it,
  and without rounding.
\<close>

definition dist2_by :: "float_ops \<Rightarrow> npfloat list \<Rightarrow> npfloat list \<Rightarrow> nat \<Rightarrow> npfloat" where
  "dist2_by ops x w f =
     f_sum ops (map (\<lambda>c. f_mul ops (f_sub ops (x ! c) (w ! c)) (f_sub ops (x ! c) (w ! c))) [0..<f])"

definition dist2 :: "npfloat list \<Rightarrow> npfloat list \<Rightarrow> nat \<Rightarrow> npfloat" where
  "dist2 = dist2_by exact_ops"

text \<open>A float that is a real number: neither an infinity nor a not-a-number.\<close>

definition is_fin :: "npfloat \<Rightarrow> bool" where
  "is_fin x = (case x of Fin r \<Rightarrow> True | _ \<Rightarrow> False)"




text \<open>
  Two states of an object that agree on what the constructor sets for good: the
  parameters, the distance matrix of the lattice and the fields of a subclass.
\<close>

definition same_config :: "'a som_scheme \<Rightarrow> 'a som_scheme \<Rightarrow> bool" where
  "same_config s s' \<longleftrightarrow>
     n_rows s' = n_rows s \<and> n_cols s' = n_cols s \<and> neighbourhood s' = neighbourhood s
     \<and> n_epochs s' = n_epochs s \<and> h0_Rmax s' = h0_Rmax s \<and> hN_R1 s' = hN_R1 s
     \<and> Rmax s' = Rmax s \<and> initial s' = initial s \<and> d2mat s' = d2mat s
     \<and> som.more s' = som.more s"

section \<open>The operations without rounding\<close>

lemma sqdist_exact:
  "sqdist x w =
     (case bcast2 fsub x w of Inl e \<Rightarrow> Inl e
      | Inr d \<Rightarrow> Inr (fsum (map (\<lambda>v. fmul v v) d)))"
  by (simp add: sqdist_def sqdist_by_def exact_ops_def split: sum.splits)

lemma sqdists_exact:
  "sqdists A B = collect (map (\<lambda>x. collect (map (\<lambda>w. sqdist x w) B)) A)"
  by (simp add: sqdists_def sqdists_by_def sqdist_def)

lemma calc_BMUs_exact:
  "calc_BMUs s X =
     (case wts s of None \<Rightarrow> Inl TypeError
      | Some W \<Rightarrow>
          (case sqdists X W of Inl e \<Rightarrow> Inl e
           | Inr D \<Rightarrow> if W = [] then Inl ValueError else collect (map argmin D)))"
  by (simp add: calc_BMUs_def calc_BMUs_by_def sqdists_def split: option.splits)

lemma dist2_exact:
  "dist2 x w f = fsum (map (\<lambda>c. fmul (fsub (x ! c) (w ! c)) (fsub (x ! c) (w ! c))) [0..<f])"
  by (simp add: dist2_def dist2_by_def exact_ops_def)

section \<open>The constructor\<close>

lemma zip_same_map: "map f (zip (map g xs) (map h xs)) = map (\<lambda>x. f (g x, h x)) xs"
  by (induction xs) auto

lemma d2mat_SOM_init:
  "SOM_init nr nc nbh ne h0 hN Rm ini = Inr s \<Longrightarrow>
   d2mat s = map (\<lambda>i. map (\<lambda>j. (i mod nc - j mod nc)\<^sup>2 + (i div nc - j div nc)\<^sup>2) [0..nr * nc - 1]) [0..nr * nc - 1]"
  by (auto simp: SOM_init_def Let_def zip_same_map split: if_splits)

lemma SOM_init_fields:
  assumes "SOM_init nr nc nbh ne h0 hN Rm ini = Inr s"
  shows "n_rows s = nr" "n_cols s = nc" "neighbourhood s = nbh" "n_epochs s = ne"
    "initial s = ini" "bmus s = None" "wts s = None" "inertia s = None"
    "kernels s = None" "dmat s = None"
    "Rmax s = (case Rm of None \<Rightarrow> sqrt (real_of_int ((nc - 1)\<^sup>2 + (nr - 1)\<^sup>2)) | Some r \<Rightarrow> r)"
    "h0_Rmax s = h0" "hN_R1 s = hN"
  using assms by (auto simp: SOM_init_def Let_def split: if_splits)

lemma SOM_init_returns:
  assumes "Rm = None \<longrightarrow> (nc - 1)\<^sup>2 + (nr - 1)\<^sup>2 < 2 ^ 64"
  shows "\<exists>s. SOM_init nr nc nbh ne h0 hN Rm ini = Inr s"
  using assms by (auto simp: SOM_init_def Let_def)

lemma SOM_init_raises:
  "SOM_init nr nc nbh ne h0 hN Rm ini = Inl e \<Longrightarrow>
   e = TypeError \<and> Rm = None \<and> 2 ^ 64 \<le> (nc - 1)\<^sup>2 + (nr - 1)\<^sup>2"
  by (auto simp: SOM_init_def Let_def split: if_splits)

lemma d2mat_length:
  "SOM_init nr nc nbh ne h0 hN Rm ini = Inr s \<Longrightarrow> length (d2mat s) = nat (nr * nc)"
  by (simp add: d2mat_SOM_init del: upto.simps)

lemma d2mat_row_length:
  "SOM_init nr nc nbh ne h0 hN Rm ini = Inr s \<Longrightarrow> r \<in> set (d2mat s) \<Longrightarrow> length r = nat (nr * nc)"
  by (auto simp: d2mat_SOM_init simp del: upto.simps)

lemma d2mat_entry:
  assumes "SOM_init nr nc nbh ne h0 hN Rm ini = Inr s" "i < nat (nr * nc)" "j < nat (nr * nc)"
  shows "d2mat s ! i ! j = (int i div nc - int j div nc)\<^sup>2 + (int i mod nc - int j mod nc)\<^sup>2"
  using assms by (simp add: d2mat_SOM_init nth_upto add.commute del: upto.simps)

text \<open>
  C8 (as amended). \<open>SOM.__init__\<close> validates nothing and has no
  \<open>InvalidDimension\<close> error. For all integers \<open>rows, cols\<close> with
  \<open>(cols-1)^2 + (rows-1)^2 < 2^64\<close>, positive or not, it returns an object that
  holds its arguments and whose distance matrix has \<open>max 0 (rows * cols)\<close>
  rows and as many columns; being a function of its arguments it is
  deterministic, and it prints nothing.
\<close>

theorem SOM_init_unvalidated:
  assumes "(nc - 1)\<^sup>2 + (nr - 1)\<^sup>2 < 2 ^ 64"
  shows "\<exists>s. SOM_init nr nc nbh ne h0 hN Rm ini = Inr s \<and> n_rows s = nr \<and> n_cols s = nc
           \<and> neighbourhood s = nbh \<and> n_epochs s = ne \<and> h0_Rmax s = h0 \<and> hN_R1 s = hN
           \<and> initial s = ini \<and> bmus s = None \<and> wts s = None \<and> inertia s = None
           \<and> Rmax s = (case Rm of None \<Rightarrow> sqrt (real_of_int ((nc - 1)\<^sup>2 + (nr - 1)\<^sup>2))
                        | Some r \<Rightarrow> r)
           \<and> length (d2mat s) = nat (nr * nc)
           \<and> list_all (\<lambda>row. length row = nat (nr * nc)) (d2mat s)"
proof -
  obtain s where s: "SOM_init nr nc nbh ne h0 hN Rm ini = Inr s"
    using SOM_init_returns assms by blast
  note fl = SOM_init_fields[OF s]
  have "list_all (\<lambda>row. length row = nat (nr * nc)) (d2mat s)"
    using d2mat_row_length[OF s] by (simp add: list_all_iff)
  then show ?thesis
    using s fl(1-5) fl(6-8) fl(11-13) d2mat_length[OF s] by blast
qed

text \<open>
  C8 (witness): the lattice of 2 rows and 3 columns, and the one of -1 rows and
  -3 columns, which has 3 neurons.
\<close>

theorem SOM_init_unvalidated_witness:
  "((3::int) - 1)\<^sup>2 + (2 - 1)\<^sup>2 < 2 ^ 64 \<and> ((- 3::int) - 1)\<^sup>2 + (- 1 - 1)\<^sup>2 < 2 ^ 64
   \<and> (\<exists>s. SOM_init 2 3 ''gaussian'' 10 (1 / 2) (1 / 100) None ''pca'' = Inr s
          \<and> n_rows s = 2 \<and> n_cols s = 3 \<and> length (d2mat s) = 6)
   \<and> (\<exists>s. SOM_init (- 1) (- 3) ''gaussian'' 10 (1 / 2) (1 / 100) None ''pca'' = Inr s
          \<and> n_rows s = - 1 \<and> n_cols s = - 3 \<and> length (d2mat s) = 3)"
proof -
  have h1: "((3::int) - 1)\<^sup>2 + (2 - 1)\<^sup>2 < 2 ^ 64" by simp
  have h2: "((- 3::int) - 1)\<^sup>2 + (- 1 - 1)\<^sup>2 < 2 ^ 64" by simp
  from SOM_init_unvalidated[OF h1, of "''gaussian''" 10 "1 / 2" "1 / 100" None "''pca''"]
  obtain s1 where s1: "SOM_init 2 3 ''gaussian'' 10 (1 / 2) (1 / 100) None ''pca'' = Inr s1"
    "n_rows s1 = 2" "n_cols s1 = 3" "length (d2mat s1) = nat (2 * 3)"
    by blast
  from SOM_init_unvalidated[OF h2, of "''gaussian''" 10 "1 / 2" "1 / 100" None "''pca''"]
  obtain s2 where s2: "SOM_init (- 1) (- 3) ''gaussian'' 10 (1 / 2) (1 / 100) None ''pca'' = Inr s2"
    "n_rows s2 = - 1" "n_cols s2 = - 3" "length (d2mat s2) = nat (- 1 * - 3)"
    by blast
  have "length (d2mat s1) = 6" "length (d2mat s2) = 3" using s1(4) s2(4) by simp_all
  then show ?thesis using h1 h2 s1 s2 by blast
qed

text \<open>
  C8 (counterexample). With zero rows the constructor returns an object, with an
  empty distance matrix, and raises nothing. With one row and \<open>2^40\<close> columns,
  both at least 1, it raises the \<open>TypeError\<close> of \<open>np.sqrt\<close>.
\<close>

theorem SOM_init_zero_rows:
  "SOM_init 0 3 ''gaussian'' 10 (1 / 2) (1 / 100) None ''pca'' =
     Inr \<lparr> n_rows = 0, n_cols = 3, neighbourhood = ''gaussian'', n_epochs = 10,
           h0_Rmax = 1 / 2, hN_R1 = 1 / 100, Rmax = sqrt 5, initial = ''pca'',
           bmus = None, wts = None, inertia = None, d2mat = [], kernels = None,
           dmat = None \<rparr>
   \<and> SOM_init 1 (2 ^ 40) ''gaussian'' 10 (1 / 2) (1 / 100) None ''pca'' = Inl TypeError"
  by (simp add: SOM_init_def)

section \<open>The radius schedule\<close>

lemma linspace_negative: "num < 0 \<Longrightarrow> linspace a b num = Inl ValueError"
  by (simp add: linspace_def)

lemma linspace_Inr:
  assumes "0 \<le> num"
  shows "\<exists>sg. linspace a b num = Inr sg \<and> length sg = nat num"
  using assms by (simp add: linspace_def Let_def del: upto.simps)

lemma linspace_single: "linspace a b 1 = Inr [a]"
  by (simp add: linspace_def upto.simps)

lemma linspace_nth:
  assumes "2 \<le> num" "linspace a b num = Inr sg" "i < nat num"
  shows "sg ! i = a + real i * ((b - a) / real_of_int (num - 1))"
proof -
  have sg: "sg = (map (\<lambda>v. v + a) (map (\<lambda>i. real_of_int i * ((b - a) / real_of_int (num - 1))) [0..num - 1]))
              [nat (num - 1) := b]"
    using assms(1,2) by (simp add: linspace_def Let_def del: upto.simps)
  show ?thesis
  proof (cases "i = nat (num - 1)")
    case True
    have "real i = real_of_int (num - 1)" using True assms(1) by simp
    moreover have "real_of_int (num - 1) \<noteq> 0" using assms(1) by simp
    ultimately have "a + real i * ((b - a) / real_of_int (num - 1)) = b" by simp
    moreover have "sg ! i = b" using True assms sg by (simp del: upto.simps)
    ultimately show ?thesis by simp
  next
    case False
    then show ?thesis using assms(1,3) sg by (simp add: nth_upto del: upto.simps)
  qed
qed

lemma linspace_first:
  assumes "1 \<le> num" "linspace a b num = Inr sg"
  shows "sg ! 0 = a"
proof (cases "num = 1")
  case True
  then show ?thesis using assms(2) by (auto simp: linspace_single)
next
  case False
  then have "2 \<le> num" using assms(1) by simp
  then show ?thesis using linspace_nth[OF _ assms(2), of 0] by simp
qed

lemma linspace_last:
  assumes "2 \<le> num" "linspace a b num = Inr sg"
  shows "sg ! (nat num - 1) = b"
proof -
  have "real (nat num - 1) = real_of_int (num - 1)" using assms(1) by (simp add: of_nat_diff)
  moreover have "real_of_int (num - 1) \<noteq> 0" using assms(1) by simp
  ultimately show ?thesis using linspace_nth[OF assms, of "nat num - 1"] assms(1) by simp
qed

lemma linspace_decreasing_iff:
  assumes "2 \<le> num" "linspace a b num = Inr sg"
  shows "(\<forall>i j. i < j \<and> j < nat num \<longrightarrow> sg ! j < sg ! i) \<longleftrightarrow> b < a"
proof
  assume dec: "\<forall>i j. i < j \<and> j < nat num \<longrightarrow> sg ! j < sg ! i"
  have "0 < nat num - 1 \<and> nat num - 1 < nat num" using assms(1) by simp
  then have "sg ! (nat num - 1) < sg ! 0" using dec by blast
  then show "b < a" using linspace_last[OF assms] linspace_first[OF _ assms(2)] assms(1) by simp
next
  assume ba: "b < a"
  have pos: "0 < real_of_int (num - 1)" using assms(1) by simp
  have step: "(b - a) / real_of_int (num - 1) < 0"
    using ba pos by (simp add: divide_neg_pos)
  show "\<forall>i j. i < j \<and> j < nat num \<longrightarrow> sg ! j < sg ! i"
  proof (intro allI impI)
    fix i j assume ij: "i < j \<and> j < nat num"
    then have "real i < real j" by simp
    then have "real j * ((b - a) / real_of_int (num - 1)) < real i * ((b - a) / real_of_int (num - 1))"
      using step by (rule mult_strict_right_mono_neg)
    then show "sg ! j < sg ! i"
      using linspace_nth[OF assms, of i] linspace_nth[OF assms, of j] ij by simp
  qed
qed

text \<open>Between the two ends: every radius of a schedule that starts above zero is above zero.\<close>

lemma linspace_pos:
  assumes "0 \<le> num" "linspace a b num = Inr sg" "0 < a" "0 < b" "i < nat num"
  shows "0 < sg ! i"
proof (cases "2 \<le> num")
  case True
  have pos: "0 < real_of_int (num - 1)" using True by simp
  have le: "real i \<le> real_of_int (num - 1)" using assms(5) True by linarith
  define t where "t = real i / real_of_int (num - 1)"
  have t: "0 \<le> t" "t \<le> 1" using pos le by (simp_all add: t_def)
  have "sg ! i = a + t * (b - a)"
    using linspace_nth[OF True assms(2,5)] by (simp add: t_def)
  also have "\<dots> = (1 - t) * a + t * b" by (simp add: algebra_simps)
  finally have eq: "sg ! i = (1 - t) * a + t * b" .
  show ?thesis
  proof (cases "t = 0")
    case True
    then show ?thesis using eq assms(3) by simp
  next
    case False
    then have "0 < t * b" using t assms(4) by simp
    moreover have "0 \<le> (1 - t) * a" using t assms(3) by simp
    ultimately show ?thesis using eq by linarith
  qed
next
  case False
  then have "num = 1" using assms(1,5) by linarith
  then show ?thesis using assms by (auto simp: linspace_single)
qed


lemma linspace_nonincreasing_iff:
  assumes "2 \<le> num" "linspace a b num = Inr sg"
  shows "(\<forall>i j. i < j \<and> j < nat num \<longrightarrow> sg ! j \<le> sg ! i) \<longleftrightarrow> b \<le> a"
proof
  assume dec: "\<forall>i j. i < j \<and> j < nat num \<longrightarrow> sg ! j \<le> sg ! i"
  have "0 < nat num - 1 \<and> nat num - 1 < nat num" using assms(1) by simp
  then have "sg ! (nat num - 1) \<le> sg ! 0" using dec by blast
  then show "b \<le> a" using linspace_last[OF assms] linspace_first[OF _ assms(2)] assms(1) by simp
next
  assume ba: "b \<le> a"
  have pos: "0 < real_of_int (num - 1)" using assms(1) by simp
  have step: "(b - a) / real_of_int (num - 1) \<le> 0"
    using ba pos by (simp add: divide_nonpos_pos)
  show "\<forall>i j. i < j \<and> j < nat num \<longrightarrow> sg ! j \<le> sg ! i"
  proof (intro allI impI)
    fix i j assume ij: "i < j \<and> j < nat num"
    then have "real i \<le> real j" by simp
    then have "real j * ((b - a) / real_of_int (num - 1)) \<le> real i * ((b - a) / real_of_int (num - 1))"
      using step by (rule mult_right_mono_neg)
    then show "sg ! j \<le> sg ! i"
      using linspace_nth[OF assms, of i] linspace_nth[OF assms, of j] ij by simp
  qed
qed

text \<open>
  C3 (as amended). A negative number of epochs is a \<open>ValueError\<close>. Otherwise the
  radius schedule has length \<open>n_epochs\<close>. With one epoch it is \<open>[Rmax]\<close>. With
  two epochs or more its first entry is \<open>Rmax\<close>, its last entry is 0.5, the
  entries between are linearly spaced, \<open>Rmax + k * (0.5 - Rmax) / (n_epochs - 1)\<close>;
  it is non-increasing if and only if \<open>Rmax\<close> is at least 0.5, and it is strictly
  decreasing only if \<open>Rmax\<close> is above 0.5. (That it then is strictly decreasing
  holds of the real numbers only: rounded to floats, neighbouring radii can be
  equal, and the theorem does not state it.)
\<close>

theorem sigs_schedule:
  "(n_epochs s < 0 \<longrightarrow> sigs s = Inl ValueError)
   \<and> (0 \<le> n_epochs s \<longrightarrow>
        (\<exists>sg. sigs s = Inr sg \<and> length sg = nat (n_epochs s)
           \<and> (n_epochs s = 1 \<longrightarrow> sg = [Rmax s])
           \<and> (2 \<le> n_epochs s \<longrightarrow>
                 sg ! 0 = Rmax s \<and> sg ! (nat (n_epochs s) - 1) = 1 / 2
               \<and> (\<forall>k<nat (n_epochs s) - 1.
                     sg ! k = Rmax s + real k * ((1 / 2 - Rmax s) / real_of_int (n_epochs s - 1)))
               \<and> ((\<forall>i j. i < j \<and> j < nat (n_epochs s) \<longrightarrow> sg ! j \<le> sg ! i) \<longleftrightarrow> 1 / 2 \<le> Rmax s)
               \<and> ((\<forall>i j. i < j \<and> j < nat (n_epochs s) \<longrightarrow> sg ! j < sg ! i) \<longrightarrow> 1 / 2 < Rmax s))))"
proof (intro conjI impI)
  assume "n_epochs s < 0"
  then show "sigs s = Inl ValueError" by (simp add: sigs_def linspace_negative)
next
  assume ne: "0 \<le> n_epochs s"
  obtain sg where sg: "linspace (Rmax s) (1 / 2) (n_epochs s) = Inr sg" "length sg = nat (n_epochs s)"
    using linspace_Inr[OF ne] by blast
  have one: "n_epochs s = 1 \<longrightarrow> sg = [Rmax s]"
    using sg(1) by (auto simp: linspace_single)
  have two: "sg ! 0 = Rmax s \<and> sg ! (nat (n_epochs s) - 1) = 1 / 2
               \<and> (\<forall>k<nat (n_epochs s) - 1.
                     sg ! k = Rmax s + real k * ((1 / 2 - Rmax s) / real_of_int (n_epochs s - 1)))
               \<and> ((\<forall>i j. i < j \<and> j < nat (n_epochs s) \<longrightarrow> sg ! j \<le> sg ! i) \<longleftrightarrow> 1 / 2 \<le> Rmax s)
               \<and> ((\<forall>i j. i < j \<and> j < nat (n_epochs s) \<longrightarrow> sg ! j < sg ! i) \<longrightarrow> 1 / 2 < Rmax s)"
    if n2: "2 \<le> n_epochs s"
  proof -
    have a: "sg ! 0 = Rmax s" using linspace_first[OF _ sg(1)] n2 by simp
    have b: "sg ! (nat (n_epochs s) - 1) = 1 / 2" using linspace_last[OF n2 sg(1)] .
    have c: "\<forall>k<nat (n_epochs s) - 1.
                     sg ! k = Rmax s + real k * ((1 / 2 - Rmax s) / real_of_int (n_epochs s - 1))"
      using linspace_nth[OF n2 sg(1)] by simp
    have d: "(\<forall>i j. i < j \<and> j < nat (n_epochs s) \<longrightarrow> sg ! j \<le> sg ! i) \<longleftrightarrow> 1 / 2 \<le> Rmax s"
      using linspace_nonincreasing_iff[OF n2 sg(1)] .
    have e: "(\<forall>i j. i < j \<and> j < nat (n_epochs s) \<longrightarrow> sg ! j < sg ! i) \<longrightarrow> 1 / 2 < Rmax s"
      using linspace_decreasing_iff[OF n2 sg(1)] by blast
    show ?thesis using a b c d e by blast
  qed
  show "\<exists>sg. sigs s = Inr sg \<and> length sg = nat (n_epochs s)
           \<and> (n_epochs s = 1 \<longrightarrow> sg = [Rmax s])
           \<and> (2 \<le> n_epochs s \<longrightarrow>
                 sg ! 0 = Rmax s \<and> sg ! (nat (n_epochs s) - 1) = 1 / 2
               \<and> (\<forall>k<nat (n_epochs s) - 1.
                     sg ! k = Rmax s + real k * ((1 / 2 - Rmax s) / real_of_int (n_epochs s - 1)))
               \<and> ((\<forall>i j. i < j \<and> j < nat (n_epochs s) \<longrightarrow> sg ! j \<le> sg ! i) \<longleftrightarrow> 1 / 2 \<le> Rmax s)
               \<and> ((\<forall>i j. i < j \<and> j < nat (n_epochs s) \<longrightarrow> sg ! j < sg ! i) \<longrightarrow> 1 / 2 < Rmax s))"
    using sg one two by (auto simp: sigs_def)
qed

text \<open>
  C3 (witness): the lattice of 1 row and 3 columns, whose default \<open>Rmax\<close> is 2,
  with 3 epochs: the radii 2, 1.25 and 0.5.
\<close>

theorem sigs_schedule_witness:
  "(0::int) \<le> n_epochs (projr (SOM_init 1 3 ''gaussian'' 3 (1 / 2) (1 / 100) None ''pca''))
   \<and> (\<exists>sg. sigs (projr (SOM_init 1 3 ''gaussian'' 3 (1 / 2) (1 / 100) None ''pca'')) = Inr sg
          \<and> length sg = 3 \<and> sg ! 0 = 2 \<and> sg ! 1 = 5 / 4 \<and> sg ! 2 = 1 / 2
          \<and> sg ! 2 \<le> sg ! 1 \<and> sg ! 1 \<le> sg ! 0)
   \<and> sigs (projr (SOM_init 1 3 ''gaussian'' 3 (1 / 2) (1 / 100) None ''pca'')) = Inr [2, 5 / 4, 1 / 2]"
proof -
  define S where "S = projr (SOM_init 1 3 ''gaussian'' 3 (1 / 2) (1 / 100) None ''pca'')"
  have n: "n_epochs S = 3" and R: "Rmax S = 2"
    by (simp_all add: S_def SOM_init_def Let_def)
  have h: "0 \<le> n_epochs S" using n by simp
  have h2: "2 \<le> n_epochs S" using n by simp
  have R2: "1 / 2 \<le> Rmax S" using R by simp
  from sigs_schedule[of S] h h2
  obtain sg where sg: "sigs S = Inr sg" "length sg = nat (n_epochs S)" "sg ! 0 = Rmax S"
    "sg ! (nat (n_epochs S) - 1) = 1 / 2"
    "\<forall>k<nat (n_epochs S) - 1. sg ! k = Rmax S + real k * ((1 / 2 - Rmax S) / real_of_int (n_epochs S - 1))"
    "(\<forall>i j. i < j \<and> j < nat (n_epochs S) \<longrightarrow> sg ! j \<le> sg ! i) \<longleftrightarrow> 1 / 2 \<le> Rmax S"
    by blast
  have l: "length sg = 3" using sg(2) n by simp
  have s0: "sg ! 0 = 2" using sg(3) R by simp
  have s2: "sg ! 2 = 1 / 2" using sg(4) n by simp
  have s1: "sg ! 1 = 5 / 4" using sg(5)[rule_format, of 1] n R by simp
  have mono: "\<forall>i j. i < j \<and> j < nat (n_epochs S) \<longrightarrow> sg ! j \<le> sg ! i" using sg(6) R2 by blast
  have m1: "sg ! 2 \<le> sg ! 1" using mono[rule_format, of 1 2] n by simp
  have m2: "sg ! 1 \<le> sg ! 0" using mono[rule_format, of 0 1] n by simp
  have ev: "sigs S = Inr [2, 5 / 4, 1 / 2]"
    by (simp add: S_def sigs_def SOM_init_def linspace_def upto.simps Let_def)
  show ?thesis using h sg(1) l s0 s1 s2 m1 m2 ev unfolding S_def by blast
qed

text \<open>
  C3 (counterexample). With one epoch the schedule is \<open>[Rmax]\<close>, whose last entry
  is not 0.5; on the lattice of one neuron, whose default \<open>Rmax\<close> is 0, the
  schedule of two epochs increases.
\<close>

theorem sigs_not_decreasing:
  "sigs (projr (SOM_init 1 3 ''gaussian'' 1 (1 / 2) (1 / 100) None ''pca'')) = Inr [2]
   \<and> sigs (projr (SOM_init 1 1 ''gaussian'' 2 (1 / 2) (1 / 100) None ''pca'')) = Inr [0, 1 / 2]"
  by (simp add: sigs_def SOM_init_def linspace_def upto.simps Let_def)

section \<open>The kernels\<close>

lemma gaussian_k_pos: "0 < sig \<Longrightarrow> gaussian_k sig d = Fin (exp (- (real_of_int d / (2 * sig))))"
  by (simp add: gaussian_k_def)

lemma exponential_k_pos:
  "0 < sig \<Longrightarrow> 0 \<le> d \<Longrightarrow> exponential_k sig d = Fin (exp (- (sqrt (real_of_int d) / (2 * sig))))"
  by (simp add: exponential_k_def)

lemma linear_k_pos:
  "0 < sig \<Longrightarrow> 0 \<le> d \<Longrightarrow> linear_k sig d = Fin (min (max (1 - sqrt (real_of_int d) / sig) 0) 1)"
  by (simp add: linear_k_def fsub_def)

lemma gaussian_k_mono:
  assumes "0 < sig" "d \<le> d'"
  shows "fle (gaussian_k sig d') (gaussian_k sig d)"
proof -
  have "real_of_int d / (2 * sig) \<le> real_of_int d' / (2 * sig)"
    using assms by (simp add: divide_right_mono)
  then show ?thesis using assms(1) by (simp add: gaussian_k_pos)
qed

lemma div_mono_pos: "0 < (c::real) \<Longrightarrow> a \<le> b \<Longrightarrow> a / c \<le> b / c"
  by (simp add: divide_right_mono)

lemma exponential_k_mono:
  assumes "0 < sig" "0 \<le> d" "d \<le> d'"
  shows "fle (exponential_k sig d') (exponential_k sig d)"
proof -
  have "sqrt (real_of_int d) \<le> sqrt (real_of_int d')" using assms(3) by simp
  moreover have "0 < 2 * sig" using assms(1) by simp
  ultimately have "sqrt (real_of_int d) / (2 * sig) \<le> sqrt (real_of_int d') / (2 * sig)"
    by (rule div_mono_pos[rotated])
  moreover have "0 \<le> d'" using assms by simp
  ultimately show ?thesis using assms(1,2) by (simp add: exponential_k_pos)
qed

lemma linear_k_mono:
  assumes "0 < sig" "0 \<le> d" "d \<le> d'"
  shows "fle (linear_k sig d') (linear_k sig d)"
proof -
  have "sqrt (real_of_int d) \<le> sqrt (real_of_int d')" using assms(3) by simp
  then have "sqrt (real_of_int d) / sig \<le> sqrt (real_of_int d') / sig"
    using assms(1) by (rule div_mono_pos[rotated])
  then have "min (max (1 - sqrt (real_of_int d') / sig) 0) 1 \<le> min (max (1 - sqrt (real_of_int d) / sig) 0) 1"
    by (intro min.mono max.mono) simp_all
  moreover have "0 \<le> d'" using assms by simp
  ultimately show ?thesis using assms(1,2) by (simp add: linear_k_pos del: min_less_iff_conj)
qed

lemma kernel_self:
  "0 < sig \<Longrightarrow> gaussian_k sig 0 = Fin 1"
  "0 < sig \<Longrightarrow> exponential_k sig 0 = Fin 1"
  "0 < sig \<Longrightarrow> linear_k sig 0 = Fin 1"
  by (simp_all add: gaussian_k_pos exponential_k_pos linear_k_pos)

lemma fexp_nonneg: "fexp x = Fin r \<Longrightarrow> 0 \<le> r"
  by (cases x) auto

lemma clip01_nonneg: "clip01 x = Fin r \<Longrightarrow> 0 \<le> r"
  by (cases x) auto

lemma bubble_k_nonneg: "bubble_k sig d = Fin r \<Longrightarrow> 0 \<le> r"
  by (simp add: bubble_k_def split: if_splits)

lemma linear_k_nonneg: "linear_k sig d = Fin r \<Longrightarrow> 0 \<le> r"
  unfolding linear_k_def by (rule clip01_nonneg)

lemma exponential_k_nonneg: "exponential_k sig d = Fin r \<Longrightarrow> 0 \<le> r"
  unfolding exponential_k_def by (rule fexp_nonneg)

lemma gaussian_k_nonneg: "gaussian_k sig d = Fin r \<Longrightarrow> 0 \<le> r"
  unfolding gaussian_k_def by (rule fexp_nonneg)

lemma kernel_tensor_nth:
  "e < length sg \<Longrightarrow> i < length D \<Longrightarrow> j < length (D ! i) \<Longrightarrow>
   kernel_tensor k sg D ! e ! i ! j = k (sg ! e) (D ! i ! j)"
  by (simp add: kernel_tensor_def)

lemma kernel_tensor_length: "length (kernel_tensor k sg D) = length sg"
  by (simp add: kernel_tensor_def)

lemma kernel_tensor_rows: "e < length sg \<Longrightarrow> length (kernel_tensor k sg D ! e) = length D"
  by (simp add: kernel_tensor_def)

lemma kernel_tensor_cols:
  "e < length sg \<Longrightarrow> i < length D \<Longrightarrow> length (kernel_tensor k sg D ! e ! i) = length (D ! i)"
  by (simp add: kernel_tensor_def)


lemma make_kernels_raises: "sigs s = Inl e \<Longrightarrow> make_kernels s = (s, [], Inl e)"
  by (simp add: make_kernels_def)

lemma make_kernels_bubble:
  "sigs s = Inr sg \<Longrightarrow> neighbourhood s = ''bubble'' \<Longrightarrow>
   make_kernels s = (s\<lparr>kernels := Some (kernel_tensor bubble_k sg (d2mat s))\<rparr>, [], Inr ())"
  by (simp add: make_kernels_def)

lemma make_kernels_linear:
  "sigs s = Inr sg \<Longrightarrow> neighbourhood s = ''linear'' \<Longrightarrow>
   make_kernels s = (s\<lparr>kernels := Some (kernel_tensor linear_k sg (d2mat s))\<rparr>, [], Inr ())"
  by (simp add: make_kernels_def)

lemma make_kernels_exponential:
  "sigs s = Inr sg \<Longrightarrow> neighbourhood s = ''exponential'' \<Longrightarrow>
   make_kernels s = (s\<lparr>kernels := Some (kernel_tensor exponential_k sg (d2mat s))\<rparr>, [], Inr ())"
  by (simp add: make_kernels_def)

lemma make_kernels_gaussian:
  "sigs s = Inr sg \<Longrightarrow> neighbourhood s = ''gaussian'' \<Longrightarrow>
   make_kernels s = (s\<lparr>kernels := Some (kernel_tensor gaussian_k sg (d2mat s))\<rparr>, [], Inr ())"
  by (simp add: make_kernels_def)

lemma make_kernels_invalid:
  "sigs s = Inr sg \<Longrightarrow> neighbourhood s \<noteq> ''bubble'' \<Longrightarrow> neighbourhood s \<noteq> ''linear'' \<Longrightarrow>
   neighbourhood s \<noteq> ''exponential'' \<Longrightarrow> neighbourhood s \<noteq> ''gaussian'' \<Longrightarrow>
   make_kernels s = (s, [''Invalid neighbourhood''], Inr ())"
  by (simp add: make_kernels_def)

lemma d2mat_nonneg:
  assumes "SOM_init nr nc nbh ne h0 hN Rm ini = Inr s" "i < nat (nr * nc)" "j < nat (nr * nc)"
  shows "0 \<le> d2mat s ! i ! j"
  using d2mat_entry[OF assms] by simp

lemma d2mat_diag:
  assumes "SOM_init nr nc nbh ne h0 hN Rm ini = Inr s" "i < nat (nr * nc)"
  shows "d2mat s ! i ! i = 0"
  using d2mat_entry[OF assms(1,2,2)] by simp

lemma d2mat_sym:
  assumes "SOM_init nr nc nbh ne h0 hN Rm ini = Inr s" "i < nat (nr * nc)" "j < nat (nr * nc)"
  shows "d2mat s ! i ! j = d2mat s ! j ! i"
  using d2mat_entry[OF assms] d2mat_entry[OF assms(1,3,2)] by (simp add: power2_commute)

lemma d2mat_nth_length:
  assumes "SOM_init nr nc nbh ne h0 hN Rm ini = Inr s" "i < nat (nr * nc)"
  shows "length (d2mat s ! i) = nat (nr * nc)"
  using d2mat_row_length[OF assms(1)] d2mat_length[OF assms(1)] assms(2) by simp

lemma sigs_pos:
  assumes "sigs s = Inr sg" "0 < Rmax s" "e < nat (n_epochs s)"
  shows "0 < sg ! e"
proof -
  have "0 \<le> n_epochs s" using assms(3) by simp
  then show ?thesis
    using linspace_pos[of "n_epochs s" "Rmax s" "1 / 2" sg e] assms by (simp add: sigs_def)
qed

text \<open>
  C4 (as amended). For the gaussian, exponential and linear families, at every
  epoch whose radius is positive the kernel weight does not increase with the grid
  distance and the self-weight is 1; every radius is positive when \<open>Rmax\<close> is.
  The distance matrix is the one a constructor built.
\<close>

theorem kernels_monotone_self:
  assumes init: "SOM_init nr nc nbh0 ne0 h0 hN Rm ini = Inr s0"
      and d2: "d2mat s = d2mat s0"
      and fam: "neighbourhood s = ''gaussian'' \<or> neighbourhood s = ''exponential''
                \<or> neighbourhood s = ''linear''"
      and ne: "0 \<le> n_epochs s"
  shows "\<exists>K sg. make_kernels s = (s\<lparr>kernels := Some K\<rparr>, [], Inr ()) \<and> sigs s = Inr sg
           \<and> length K = nat (n_epochs s)
           \<and> (\<forall>e<nat (n_epochs s). 0 < sg ! e \<longrightarrow>
                 (\<forall>i<nat (nr * nc). \<forall>j<nat (nr * nc). \<forall>i'<nat (nr * nc). \<forall>j'<nat (nr * nc).
                    (d2mat s ! i ! j \<le> d2mat s ! i' ! j' \<longrightarrow> fle (K ! e ! i' ! j') (K ! e ! i ! j))
                    \<and> K ! e ! i ! i = Fin 1))
           \<and> (0 < Rmax s \<longrightarrow> (\<forall>e<nat (n_epochs s). 0 < sg ! e))"
proof -
  let ?k = "nat (nr * nc)"
  obtain sg where sg: "sigs s = Inr sg" "length sg = nat (n_epochs s)"
    using linspace_Inr[OF ne] unfolding sigs_def by blast
  obtain kf where mk: "make_kernels s = (s\<lparr>kernels := Some (kernel_tensor kf sg (d2mat s))\<rparr>, [], Inr ())"
    and mono: "\<And>sig d d'. 0 < sig \<Longrightarrow> 0 \<le> d \<Longrightarrow> d \<le> d' \<Longrightarrow> fle (kf sig d') (kf sig d)"
    and self: "\<And>sig. 0 < sig \<Longrightarrow> kf sig 0 = Fin 1"
  proof -
    consider "neighbourhood s = ''gaussian''" | "neighbourhood s = ''exponential''"
      | "neighbourhood s = ''linear''" using fam by blast
    then show ?thesis
    proof cases
      case 1
      show ?thesis
        by (rule that[of gaussian_k]) (simp_all add: make_kernels_gaussian[OF sg(1) 1] gaussian_k_mono kernel_self)
    next
      case 2
      show ?thesis
        by (rule that[of exponential_k]) (simp_all add: make_kernels_exponential[OF sg(1) 2] exponential_k_mono kernel_self)
    next
      case 3
      show ?thesis
        by (rule that[of linear_k]) (simp_all add: make_kernels_linear[OF sg(1) 3] linear_k_mono kernel_self)
    qed
  qed
  let ?K = "kernel_tensor kf sg (d2mat s)"
  have len: "length (d2mat s) = ?k" using d2mat_length[OF init] d2 by simp
  have rows: "\<And>i. i < ?k \<Longrightarrow> length (d2mat s ! i) = ?k"
    using d2mat_nth_length[OF init] d2 by simp
  have entry: "\<And>e i j. e < nat (n_epochs s) \<Longrightarrow> i < ?k \<Longrightarrow> j < ?k \<Longrightarrow>
      ?K ! e ! i ! j = kf (sg ! e) (d2mat s ! i ! j)"
    using kernel_tensor_nth[of _ sg _ "d2mat s"] sg(2) len rows by simp
  have main: "\<forall>e<nat (n_epochs s). 0 < sg ! e \<longrightarrow>
                 (\<forall>i<?k. \<forall>j<?k. \<forall>i'<?k. \<forall>j'<?k.
                    (d2mat s ! i ! j \<le> d2mat s ! i' ! j' \<longrightarrow> fle (?K ! e ! i' ! j') (?K ! e ! i ! j))
                    \<and> ?K ! e ! i ! i = Fin 1)"
  proof (intro allI impI conjI)
    fix e i j i' j'
    assume e: "e < nat (n_epochs s)" and pos: "0 < sg ! e"
      and i: "i < ?k" and j: "j < ?k" and i': "i' < ?k" and j': "j' < ?k"
    show "?K ! e ! i ! i = Fin 1"
      using entry[OF e i i] d2mat_diag[OF init i] d2 self[OF pos] by simp
    assume le: "d2mat s ! i ! j \<le> d2mat s ! i' ! j'"
    have "0 \<le> d2mat s ! i ! j" using d2mat_nonneg[OF init i j] d2 by simp
    then show "fle (?K ! e ! i' ! j') (?K ! e ! i ! j)"
      using entry[OF e i j] entry[OF e i' j'] mono[OF pos _ le] by simp
  qed
  have "0 < Rmax s \<longrightarrow> (\<forall>e<nat (n_epochs s). 0 < sg ! e)"
    using sigs_pos[OF sg(1)] by blast
  moreover have "length ?K = nat (n_epochs s)" using sg(2) by (simp add: kernel_tensor_length)
  ultimately show ?thesis using mk sg(1) main by blast
qed

text \<open>
  C4 (witness): the lattice of 1 row and 3 columns with the gaussian family and 2
  epochs; its radii are 2 and 0.5.
\<close>

theorem kernels_monotone_self_witness:
  "SOM_init 1 3 ''gaussian'' 2 (1 / 2) (1 / 100) None ''pca''
     = Inr (projr (SOM_init 1 3 ''gaussian'' 2 (1 / 2) (1 / 100) None ''pca''))
   \<and> neighbourhood (projr (SOM_init 1 3 ''gaussian'' 2 (1 / 2) (1 / 100) None ''pca'')) = ''gaussian''
   \<and> 0 \<le> n_epochs (projr (SOM_init 1 3 ''gaussian'' 2 (1 / 2) (1 / 100) None ''pca''))
   \<and> 0 < Rmax (projr (SOM_init 1 3 ''gaussian'' 2 (1 / 2) (1 / 100) None ''pca''))
   \<and> (\<exists>K. make_kernels (projr (SOM_init 1 3 ''gaussian'' 2 (1 / 2) (1 / 100) None ''pca''))
            = ((projr (SOM_init 1 3 ''gaussian'' 2 (1 / 2) (1 / 100) None ''pca''))\<lparr>kernels := Some K\<rparr>, [], Inr ())
          \<and> length K = 2
          \<and> K ! 0 ! 0 ! 0 = Fin 1 \<and> K ! 1 ! 2 ! 2 = Fin 1
          \<and> fle (K ! 0 ! 0 ! 2) (K ! 0 ! 0 ! 1) \<and> fle (K ! 1 ! 0 ! 2) (K ! 1 ! 1 ! 0))"
proof -
  define S where "S = projr (SOM_init 1 3 ''gaussian'' 2 (1 / 2) (1 / 100) None ''pca'')"
  have init: "SOM_init 1 3 ''gaussian'' 2 (1 / 2) (1 / 100) None ''pca'' = Inr S"
    by (simp add: S_def SOM_init_def Let_def)
  have fam: "neighbourhood S = ''gaussian'' \<or> neighbourhood S = ''exponential''
      \<or> neighbourhood S = ''linear''"
    and n: "n_epochs S = 2" and R: "Rmax S = 2"
    and D: "d2mat S = [[0, 1, 4], [1, 0, 1], [4, 1, 0]]"
    by (simp_all add: S_def SOM_init_def Let_def upto.simps)
  have ne: "0 \<le> n_epochs S" using n by simp
  from kernels_monotone_self[OF init refl fam ne]
  obtain K sg where K: "make_kernels S = (S\<lparr>kernels := Some K\<rparr>, [], Inr ())"
    and sgS: "sigs S = Inr sg"
    and len: "length K = nat (n_epochs S)"
    and all: "\<forall>e<nat (n_epochs S). 0 < sg ! e \<longrightarrow>
                 (\<forall>i<nat (1 * 3). \<forall>j<nat (1 * 3). \<forall>i'<nat (1 * 3). \<forall>j'<nat (1 * 3).
                    (d2mat S ! i ! j \<le> d2mat S ! i' ! j' \<longrightarrow> fle (K ! e ! i' ! j') (K ! e ! i ! j))
                    \<and> K ! e ! i ! i = Fin 1)"
    and pos: "0 < Rmax S \<longrightarrow> (\<forall>e<nat (n_epochs S). 0 < sg ! e)"
    by (elim exE conjE) (rule that)
  have pos': "0 < sg ! 0" "0 < sg ! 1" using pos n R by simp_all
  have e0: "\<forall>i<3. \<forall>j<3. \<forall>i'<3. \<forall>j'<3.
                    (d2mat S ! i ! j \<le> d2mat S ! i' ! j' \<longrightarrow> fle (K ! 0 ! i' ! j') (K ! 0 ! i ! j))
                    \<and> K ! 0 ! i ! i = Fin 1"
    using all pos'(1) n by simp
  have e1: "\<forall>i<3. \<forall>j<3. \<forall>i'<3. \<forall>j'<3.
                    (d2mat S ! i ! j \<le> d2mat S ! i' ! j' \<longrightarrow> fle (K ! 1 ! i' ! j') (K ! 1 ! i ! j))
                    \<and> K ! 1 ! i ! i = Fin 1"
    using all pos'(2) n by simp
  have a: "K ! 0 ! 0 ! 0 = Fin 1" using e0[rule_format, of 0 0 0 0] by simp
  have b: "K ! 1 ! 2 ! 2 = Fin 1" using e1[rule_format, of 2 2 2 2] by simp
  have "d2mat S ! 0 ! 1 \<le> d2mat S ! 0 ! 2" by (simp add: D)
  then have c: "fle (K ! 0 ! 0 ! 2) (K ! 0 ! 0 ! 1)" using e0[rule_format, of 0 1 0 2] by simp
  have "d2mat S ! 1 ! 0 \<le> d2mat S ! 0 ! 2" by (simp add: D)
  then have d: "fle (K ! 1 ! 0 ! 2) (K ! 1 ! 1 ! 0)" using e1[rule_format, of 1 0 0 2] by simp
  have "neighbourhood S = ''gaussian''" by (simp add: S_def SOM_init_def Let_def)
  moreover have "0 < Rmax S" using R by simp
  moreover have "length K = 2" using len n by simp
  ultimately show ?thesis using init ne K a b c d unfolding S_def by blast
qed

text \<open>
  C4 (counterexample). On the lattice of one neuron the default \<open>Rmax\<close> is 0, the
  first radius is 0, and the self-weight of the first epoch is \<open>exp(-(0/0))\<close>, a
  not-a-number, with every parameter at its default.
\<close>

theorem kernels_self_weight_nan:
  "make_kernels (projr (SOM_init 1 1 ''gaussian'' 10 (1 / 2) (1 / 100) None ''pca''))
   = ((projr (SOM_init 1 1 ''gaussian'' 10 (1 / 2) (1 / 100) None ''pca''))
        \<lparr>kernels := Some [[[NaN]], [[Fin 1]], [[Fin 1]], [[Fin 1]], [[Fin 1]], [[Fin 1]],
                          [[Fin 1]], [[Fin 1]], [[Fin 1]], [[Fin 1]]]\<rparr>, [], Inr ())"
  by (simp add: SOM_init_def Let_def upto.simps make_kernels_def sigs_def linspace_def
        kernel_tensor_def gaussian_k_def inf_of_sign_def)

section \<open>The BMU assigner\<close>

lemma fle_refl: "x \<noteq> NaN \<Longrightarrow> fle x x"
  by (cases x) auto

lemma fle_total: "x \<noteq> NaN \<Longrightarrow> y \<noteq> NaN \<Longrightarrow> fle x y \<or> fle y x"
  by (cases x; cases y) auto

lemma fle_trans: "fle x y \<Longrightarrow> fle y z \<Longrightarrow> fle x z"
  by (cases x; cases y; cases z) auto

lemma not_fle_trans1: "\<not> fle x y \<Longrightarrow> fle x z \<Longrightarrow> \<not> fle z y"
  using fle_trans by blast

lemma not_fle_trans2: "\<not> fle y x \<Longrightarrow> \<not> fle z y \<Longrightarrow> x \<noteq> NaN \<Longrightarrow> y \<noteq> NaN \<Longrightarrow> z \<noteq> NaN \<Longrightarrow> \<not> fle z x"
  by (cases x; cases y; cases z) auto

lemma argmin_loop_spec:
  assumes "NaN \<notin> set r" "mp \<noteq> NaN"
  shows "(argmin_loop mp mi i r = mi \<and> (\<forall>x\<in>set r. fle mp x))
       \<or> (i \<le> argmin_loop mp mi i r \<and> argmin_loop mp mi i r < i + length r
          \<and> \<not> fle mp (r ! (argmin_loop mp mi i r - i))
          \<and> (\<forall>x\<in>set r. fle (r ! (argmin_loop mp mi i r - i)) x)
          \<and> (\<forall>q<argmin_loop mp mi i r - i. \<not> fle (r ! q) (r ! (argmin_loop mp mi i r - i))))"
  using assms
proof (induction r arbitrary: mp mi i)
  case Nil
  then show ?case by simp
next
  case (Cons x xs)
  have xn: "x \<noteq> NaN" and xsn: "NaN \<notin> set xs" using Cons.prems(1) by auto
  show ?case
  proof (cases "fle mp x")
    case True
    let ?res = "argmin_loop mp mi (Suc i) xs"
    have eq: "argmin_loop mp mi i (x # xs) = ?res" using True by simp
    from Cons.IH[OF xsn Cons.prems(2), of mi "Suc i"]
    consider (a) "?res = mi" "\<forall>y\<in>set xs. fle mp y"
      | (b) "Suc i \<le> ?res" "?res < Suc i + length xs" "\<not> fle mp (xs ! (?res - Suc i))"
            "\<forall>y\<in>set xs. fle (xs ! (?res - Suc i)) y"
            "\<forall>q<?res - Suc i. \<not> fle (xs ! q) (xs ! (?res - Suc i))"
      by blast
    then show ?thesis
    proof cases
      case a
      then show ?thesis using True eq by simp
    next
      case b
      let ?m = "xs ! (?res - Suc i)"
      have idx: "?res - i = Suc (?res - Suc i)" using b(1) by simp
      have mn: "?m \<noteq> NaN" using xsn b(1,2) by (metis add_diff_inverse_nat less_diff_conv2 not_less nth_mem add.commute)
      have nx: "\<not> fle x ?m" using not_fle_trans1[OF b(3) True] .
      have xm: "fle ?m x" using fle_total[OF xn mn] nx by blast
      have "\<forall>q<Suc (?res - Suc i). \<not> fle ((x # xs) ! q) ?m"
      proof (intro allI impI)
        fix q assume "q < Suc (?res - Suc i)"
        then show "\<not> fle ((x # xs) ! q) ?m" using nx b(5) by (cases q) auto
      qed
      then show ?thesis using b xm unfolding eq idx by simp
    qed
  next
    case False
    let ?res = "argmin_loop x i (Suc i) xs"
    have eq: "argmin_loop mp mi i (x # xs) = ?res" using False xn by (simp add: isnan_def)
    from Cons.IH[OF xsn xn, of i "Suc i"]
    consider (a) "?res = i" "\<forall>y\<in>set xs. fle x y"
      | (b) "Suc i \<le> ?res" "?res < Suc i + length xs" "\<not> fle x (xs ! (?res - Suc i))"
            "\<forall>y\<in>set xs. fle (xs ! (?res - Suc i)) y"
            "\<forall>q<?res - Suc i. \<not> fle (xs ! q) (xs ! (?res - Suc i))"
      by blast
    then show ?thesis
    proof cases
      case a
      then show ?thesis using False eq fle_refl[OF xn] by simp
    next
      case b
      let ?m = "xs ! (?res - Suc i)"
      have idx: "?res - i = Suc (?res - Suc i)" using b(1) by simp
      have mn: "?m \<noteq> NaN" using xsn b(1,2) by (metis add_diff_inverse_nat less_diff_conv2 not_less nth_mem add.commute)
      have xm: "fle ?m x" using fle_total[OF xn mn] b(3) by blast
      have mpm: "\<not> fle mp ?m" using not_fle_trans2[OF b(3) False mn xn Cons.prems(2)] .
      have "\<forall>q<Suc (?res - Suc i). \<not> fle ((x # xs) ! q) ?m"
      proof (intro allI impI)
        fix q assume "q < Suc (?res - Suc i)"
        then show "\<not> fle ((x # xs) ! q) ?m" using b(3,5) by (cases q) auto
      qed
      then show ?thesis using b xm mpm unfolding eq idx by simp
    qed
  qed
qed

lemma argmin_spec:
  assumes "xs \<noteq> []" "NaN \<notin> set xs"
  shows "\<exists>m. argmin xs = Inr m \<and> m < length xs \<and> (\<forall>j<length xs. fle (xs ! m) (xs ! j))
             \<and> (\<forall>j<m. \<not> fle (xs ! j) (xs ! m))"
proof -
  obtain x r where xs: "xs = x # r" using assms(1) by (cases xs) auto
  have xn: "x \<noteq> NaN" and rn: "NaN \<notin> set r" using assms(2) xs by auto
  let ?res = "argmin_loop x 0 1 r"
  have am: "argmin xs = Inr ?res" using xs xn by (simp add: argmin_def isnan_def)
  from argmin_loop_spec[OF rn xn, of 0 1]
  consider (a) "?res = 0" "\<forall>y\<in>set r. fle x y"
    | (b) "1 \<le> ?res" "?res < 1 + length r" "\<not> fle x (r ! (?res - 1))"
          "\<forall>y\<in>set r. fle (r ! (?res - 1)) y" "\<forall>q<?res - 1. \<not> fle (r ! q) (r ! (?res - 1))"
    by (elim disjE conjE) simp_all
  then show ?thesis
  proof cases
    case a
    have "\<forall>j<length xs. fle (xs ! 0) (xs ! j)"
    proof (intro allI impI)
      fix j assume "j < length xs"
      then show "fle (xs ! 0) (xs ! j)" using a(2) xs fle_refl[OF xn] by (cases j) auto
    qed
    then show ?thesis using am a(1) xs by simp
  next
    case b
    let ?m = "r ! (?res - 1)"
    have xsm: "xs ! ?res = ?m" using xs b(1) by (simp add: nth_Cons')
    have mn: "?m \<noteq> NaN" using rn b(1,2) by (metis One_nat_def Suc_pred less_Suc_eq_le not_less nth_mem plus_1_eq_Suc less_le_trans zero_less_one)
    have xm: "fle ?m x" using fle_total[OF xn mn] b(3) by blast
    have all: "\<forall>j<length xs. fle ?m (xs ! j)"
    proof (intro allI impI)
      fix j assume "j < length xs"
      then show "fle ?m (xs ! j)" using xs xm b(4) by (cases j) auto
    qed
    have first: "\<forall>j<?res. \<not> fle (xs ! j) ?m"
    proof (intro allI impI)
      fix j assume j: "j < ?res"
      show "\<not> fle (xs ! j) ?m"
      proof (cases j)
        case 0
        then show ?thesis using xs b(3) by simp
      next
        case (Suc q)
        then have "q < ?res - 1" using j by simp
        then show ?thesis using b(5) xs Suc by simp
      qed
    qed
    have "?res < length xs" using b(2) xs by simp
    then show ?thesis using am all first xsm by simp
  qed
qed

text \<open>With a not-a-number among the elements, the index of the first one.\<close>

lemma argmin_loop_bound: "mi < i \<Longrightarrow> argmin_loop mp mi i r < i + length r"
proof (induction r arbitrary: mp mi i)
  case Nil
  then show ?case by simp
next
  case (Cons x xs)
  have "argmin_loop x i (Suc i) xs < Suc i + length xs" using Cons.IH[of i "Suc i" x] by simp
  moreover have "argmin_loop mp mi (Suc i) xs < Suc i + length xs"
    using Cons.IH[of mi "Suc i" mp] Cons.prems by simp
  ultimately show ?case by simp
qed

lemma argmin_bound:
  assumes "argmin xs = Inr m"
  shows "m < length xs"
proof -
  obtain x r where xs: "xs = x # r" using assms by (cases xs) (auto simp: argmin_def)
  show ?thesis using assms xs argmin_loop_bound[of 0 1 x r] by (auto simp: argmin_def split: if_splits)
qed

lemma collect_map_Inr': "collect (map Inr vs) = Inr vs"
  by (induction vs) auto

lemma collect_Inr_D: "collect rs = Inr vs \<Longrightarrow> rs = map Inr vs"
  by (induction rs arbitrary: vs) (auto split: sum.splits)

lemma collect_Inr:
  "collect rs = Inr vs \<longleftrightarrow> rs = map Inr vs"
  using collect_Inr_D collect_map_Inr' by blast

lemma collect_map_Inr: "collect (map (\<lambda>x. Inr (g x)) xs) = Inr (map g xs)"
  by (induction xs) auto

lemma collect_length: "collect rs = Inr vs \<Longrightarrow> length vs = length rs"
  by (auto simp: collect_Inr)

lemma collect_nth: "collect rs = Inr vs \<Longrightarrow> i < length rs \<Longrightarrow> rs ! i = Inr (vs ! i)"
  by (auto simp: collect_Inr)

lemma collect_all_Inr:
  assumes "\<forall>r\<in>set rs. \<exists>v. r = Inr v"
  shows "\<exists>vs. collect rs = Inr vs"
  using assms by (induction rs) (auto split: sum.splits)




lemma argmin_nonempty: "xs \<noteq> [] \<Longrightarrow> \<exists>m. argmin xs = Inr m"
  by (cases xs) (simp_all add: argmin_def)

lemma is_fin_iff: "is_fin x \<longleftrightarrow> (\<exists>r. x = Fin r)"
  by (cases x) (simp_all add: is_fin_def)

lemma fsum_is_fin: "\<forall>x\<in>set xs. is_fin x \<Longrightarrow> is_fin (fsum xs)"
  by (induction xs) (auto simp: is_fin_iff)

lemma sq_diff_is_fin: "is_fin a \<Longrightarrow> is_fin b \<Longrightarrow> is_fin (fmul (fsub a b) (fsub a b))"
  by (auto simp: is_fin_iff fsub_def)

lemma dist2_is_fin:
  assumes "\<forall>c<f. is_fin (x ! c)" "\<forall>c<f. is_fin (w ! c)"
  shows "is_fin (dist2 x w f)"
  unfolding dist2_exact using assms by (intro fsum_is_fin) (auto intro: sq_diff_is_fin)



lemma calc_BMUs_length:
  assumes "calc_BMUs s X = Inr b"
  shows "length b = length X"
proof -
  obtain W D where D: "sqdists X W = Inr D" and b: "collect (map argmin D) = Inr b"
    using assms(1) by (auto simp: calc_BMUs_exact split: sum.splits if_splits option.splits)
  have "length D = length X" using D by (auto simp: sqdists_exact dest: collect_length)
  then show ?thesis using collect_length[OF b] by simp
qed

lemma fle_nan_right: "\<not> fle x NaN"
  by (cases x) auto

lemma dist_conn: "dist2_by exact_ops x w f = dist2 x w f"
  by (simp add: dist2_by_def dist2_def exact_ops_def)

lemma argmin_loop_first_nan:
  assumes "NaN \<in> set r"
  shows "i \<le> argmin_loop mp mi i r \<and> argmin_loop mp mi i r < i + length r
       \<and> r ! (argmin_loop mp mi i r - i) = NaN
       \<and> (\<forall>q<argmin_loop mp mi i r - i. r ! q \<noteq> NaN)"
  using assms
proof (induction r arbitrary: mp mi i)
  case Nil
  then show ?case by simp
next
  case (Cons x xs)
  show ?case
  proof (cases "x = NaN")
    case True
    then have "argmin_loop mp mi i (x # xs) = i" by (simp add: isnan_def fle_nan_right)
    then show ?thesis using True by simp
  next
    case False
    then have in_xs: "NaN \<in> set xs" using Cons.prems by auto
    have step: "\<exists>mp' mi'. argmin_loop mp mi i (x # xs) = argmin_loop mp' mi' (Suc i) xs"
      using False by (auto simp: isnan_def)
    then obtain mp' mi' where eq: "argmin_loop mp mi i (x # xs) = argmin_loop mp' mi' (Suc i) xs"
      by blast
    let ?res = "argmin_loop mp' mi' (Suc i) xs"
    note IH = Cons.IH[OF in_xs, of "Suc i" mp' mi']
    have "Suc i \<le> ?res" using IH by simp
    then have idx: "?res - i = Suc (?res - Suc i)" by simp
    have "\<forall>q<Suc (?res - Suc i). (x # xs) ! q \<noteq> NaN"
    proof (intro allI impI)
      fix q assume "q < Suc (?res - Suc i)"
      then show "(x # xs) ! q \<noteq> NaN" using False IH by (cases q) auto
    qed
    then show ?thesis using IH unfolding eq idx by simp
  qed
qed

lemma argmin_first_nan:
  assumes "NaN \<in> set xs"
  shows "\<exists>m. argmin xs = Inr m \<and> m < length xs \<and> xs ! m = NaN \<and> (\<forall>j<m. xs ! j \<noteq> NaN)"
proof -
  obtain x r where xs: "xs = x # r" using assms by (cases xs) auto
  show ?thesis
  proof (cases "x = NaN")
    case True
    then show ?thesis using xs by (simp add: argmin_def isnan_def)
  next
    case False
    then have in_r: "NaN \<in> set r" using assms xs by auto
    let ?res = "argmin_loop x 0 1 r"
    have am: "argmin xs = Inr ?res" using xs False by (simp add: argmin_def isnan_def)
    note L = argmin_loop_first_nan[OF in_r, of 1 x 0]
    have a: "1 \<le> ?res" "?res < 1 + length r" "r ! (?res - 1) = NaN"
      "\<forall>q<?res - 1. r ! q \<noteq> NaN"
      using L by simp_all
    have m: "xs ! ?res = NaN" using xs a(1,3) by (simp add: nth_Cons')
    have "\<forall>j<?res. xs ! j \<noteq> NaN"
    proof (intro allI impI)
      fix j assume j: "j < ?res"
      show "xs ! j \<noteq> NaN"
      proof (cases j)
        case 0
        then show ?thesis using xs False by simp
      next
        case (Suc q)
        then have "q < ?res - 1" using j by simp
        then show ?thesis using a(4) xs Suc by simp
      qed
    qed
    moreover have "?res < length xs" using a(2) xs by simp
    ultimately show ?thesis using am m by blast
  qed
qed

lemma sqdist_by_dist2:
  assumes "length x = f" "length w = f"
  shows "sqdist_by ops x w = Inr (dist2_by ops x w f)"
proof -
  have "map (\<lambda>v. f_mul ops v v) (map2 (f_sub ops) x w)
        = map (\<lambda>c. f_mul ops (f_sub ops (x ! c) (w ! c)) (f_sub ops (x ! c) (w ! c))) [0..<f]"
    using assms by (intro nth_equalityI) simp_all
  then show ?thesis using assms by (simp add: sqdist_by_def bcast2_def dist2_by_def)
qed

lemma sqdists_by_rect:
  assumes "\<forall>x\<in>set A. length x = f" "\<forall>w\<in>set B. length w = f"
  shows "sqdists_by ops A B = Inr (map (\<lambda>x. map (\<lambda>w. dist2_by ops x w f) B) A)"
proof -
  have row: "collect (map (\<lambda>w. sqdist_by ops x w) B) = Inr (map (\<lambda>w. dist2_by ops x w f) B)"
    if "x \<in> set A" for x
  proof -
    have eq: "map (\<lambda>w. sqdist_by ops x w) B = map (\<lambda>w. Inr (dist2_by ops x w f)) B"
      using assms that by (intro map_cong) (simp_all add: sqdist_by_dist2)
    show ?thesis unfolding eq by (rule collect_map_Inr)
  qed
  have eq: "map (\<lambda>x. collect (map (\<lambda>w. sqdist_by ops x w) B)) A
            = map (\<lambda>x. Inr (map (\<lambda>w. dist2_by ops x w f) B)) A"
    using row by (intro map_cong) simp_all
  show ?thesis unfolding sqdists_by_def eq by (rule collect_map_Inr)
qed

lemma calc_BMUs_by_rect:
  assumes W: "wts s = Some W" "W \<noteq> []"
      and rW: "\<forall>w\<in>set W. length w = f" and rX: "\<forall>x\<in>set X. length x = f"
  shows "\<exists>b. calc_BMUs_by ops s X = Inr b \<and> length b = length X
           \<and> (\<forall>i<length X. argmin (map (\<lambda>w. dist2_by ops (X ! i) w f) W) = Inr (b ! i))"
proof -
  let ?D = "map (\<lambda>x. map (\<lambda>w. dist2_by ops x w f) W) X"
  have D: "sqdists_by ops X W = Inr ?D" using sqdists_by_rect[OF rX rW] .
  have "\<forall>r\<in>set (map argmin ?D). \<exists>m. r = Inr m"
    using W(2) argmin_nonempty by auto
  then obtain b where b: "collect (map argmin ?D) = Inr b" using collect_all_Inr by blast
  have len: "length b = length X" using collect_length[OF b] by simp
  have "\<forall>i<length X. argmin (map (\<lambda>w. dist2_by ops (X ! i) w f) W) = Inr (b ! i)"
    using collect_nth[OF b] by simp
  moreover have "calc_BMUs_by ops s X = Inr b" using W D b by (simp add: calc_BMUs_by_def)
  ultimately show ?thesis using len by blast
qed

text \<open>
  C2 (as amended). For a data matrix and a non-empty weight matrix of one feature
  dimension, \<open>calc_BMUs\<close> returns one neuron index for every sample, whatever the
  floating-point operations are. It is the first index at which the squared
  distances, as these operations compute them, are least: for a sample none of
  whose computed distances is a not-a-number, no neuron has a smaller computed
  distance than the sample's BMU, and every neuron of a lower index has a larger
  one; for a sample with a not-a-number among its computed distances, the BMU is
  the first neuron whose distance is a not-a-number.
\<close>

theorem calc_BMUs_nearest:
  assumes W: "wts s = Some W" "W \<noteq> []"
      and rW: "\<forall>w\<in>set W. length w = f" and rX: "\<forall>x\<in>set X. length x = f"
  shows "\<exists>b. calc_BMUs_by ops s X = Inr b \<and> length b = length X
           \<and> (\<forall>i<length X. b ! i < length W
                \<and> ((\<forall>j<length W. \<not> isnan (dist2_by ops (X ! i) (W ! j) f)) \<longrightarrow>
                     (\<forall>j<length W. fle (dist2_by ops (X ! i) (W ! (b ! i)) f)
                                       (dist2_by ops (X ! i) (W ! j) f))
                   \<and> (\<forall>j<b ! i. \<not> fle (dist2_by ops (X ! i) (W ! j) f)
                                       (dist2_by ops (X ! i) (W ! (b ! i)) f)))
                \<and> ((\<exists>j<length W. isnan (dist2_by ops (X ! i) (W ! j) f)) \<longrightarrow>
                     isnan (dist2_by ops (X ! i) (W ! (b ! i)) f)
                   \<and> (\<forall>j<b ! i. \<not> isnan (dist2_by ops (X ! i) (W ! j) f))))"
proof -
  obtain b where b: "calc_BMUs_by ops s X = Inr b" "length b = length X"
    and am: "\<forall>i<length X. argmin (map (\<lambda>w. dist2_by ops (X ! i) w f) W) = Inr (b ! i)"
    using calc_BMUs_by_rect[OF W rW rX] by blast
  have "b ! i < length W
        \<and> ((\<forall>j<length W. \<not> isnan (dist2_by ops (X ! i) (W ! j) f)) \<longrightarrow>
             (\<forall>j<length W. fle (dist2_by ops (X ! i) (W ! (b ! i)) f)
                               (dist2_by ops (X ! i) (W ! j) f))
           \<and> (\<forall>j<b ! i. \<not> fle (dist2_by ops (X ! i) (W ! j) f)
                               (dist2_by ops (X ! i) (W ! (b ! i)) f)))
        \<and> ((\<exists>j<length W. isnan (dist2_by ops (X ! i) (W ! j) f)) \<longrightarrow>
             isnan (dist2_by ops (X ! i) (W ! (b ! i)) f)
           \<and> (\<forall>j<b ! i. \<not> isnan (dist2_by ops (X ! i) (W ! j) f)))"
    if i: "i < length X" for i
  proof -
    let ?row = "map (\<lambda>w. dist2_by ops (X ! i) w f) W"
    have ami: "argmin ?row = Inr (b ! i)" using am i by simp
    have bound: "b ! i < length W" using argmin_bound[OF ami] by simp
    have near: "(\<forall>j<length W. fle (dist2_by ops (X ! i) (W ! (b ! i)) f)
                                  (dist2_by ops (X ! i) (W ! j) f))
              \<and> (\<forall>j<b ! i. \<not> fle (dist2_by ops (X ! i) (W ! j) f)
                                  (dist2_by ops (X ! i) (W ! (b ! i)) f))"
      if nn: "\<forall>j<length W. \<not> isnan (dist2_by ops (X ! i) (W ! j) f)"
    proof -
      have "NaN \<notin> set ?row" using nn by (fastforce simp: isnan_def in_set_conv_nth)
      moreover have "?row \<noteq> []" using W(2) by simp
      ultimately obtain m where m: "argmin ?row = Inr m" "m < length ?row"
        "\<forall>j<length ?row. fle (?row ! m) (?row ! j)" "\<forall>j<m. \<not> fle (?row ! j) (?row ! m)"
        using argmin_spec by blast
      have mb: "m = b ! i" using m(1) ami by simp
      show ?thesis using m(2,3,4) unfolding mb by simp
    qed
    have nan: "isnan (dist2_by ops (X ! i) (W ! (b ! i)) f)
              \<and> (\<forall>j<b ! i. \<not> isnan (dist2_by ops (X ! i) (W ! j) f))"
      if ex: "\<exists>j<length W. isnan (dist2_by ops (X ! i) (W ! j) f)"
    proof -
      have "NaN \<in> set ?row" using ex by (force simp: isnan_def in_set_conv_nth)
      then obtain m where m: "argmin ?row = Inr m" "m < length ?row" "?row ! m = NaN"
        "\<forall>j<m. ?row ! j \<noteq> NaN"
        using argmin_first_nan by blast
      have mb: "m = b ! i" using m(1) ami by simp
      show ?thesis using m(2,3,4) unfolding mb by (simp add: isnan_def)
    qed
    show ?thesis using bound near nan by blast
  qed
  then show ?thesis using b by blast
qed

text \<open>
  C2 (witness), with the operations that do not round, on numbers they are exact
  for: two samples with one feature and the weights 5 and 1, both samples
  nearest to neuron 1; and one sample with the weights not-a-number and 1, which
  goes to neuron 0.
\<close>

theorem calc_BMUs_nearest_witness:
  "calc_BMUs_by exact_ops ((projr (SOM_init 1 2 ''gaussian'' 10 (1 / 2) (1 / 100) None ''pca''))
                \<lparr>wts := Some [[Fin 5], [Fin 1]]\<rparr>) [[Fin 0], [Fin 2]] = Inr [1, 1]
   \<and> fle (dist2_by exact_ops [Fin 0] [Fin 1] 1) (dist2_by exact_ops [Fin 0] [Fin 5] 1)
   \<and> \<not> fle (dist2_by exact_ops [Fin 2] [Fin 5] 1) (dist2_by exact_ops [Fin 2] [Fin 1] 1)
   \<and> calc_BMUs_by exact_ops ((projr (SOM_init 1 2 ''gaussian'' 10 (1 / 2) (1 / 100) None ''pca''))
                \<lparr>wts := Some [[NaN], [Fin 1]]\<rparr>) [[Fin 1]] = Inr [0]
   \<and> isnan (dist2_by exact_ops [Fin 1] [NaN] 1)"
proof -
  define S0 where "S0 = projr (SOM_init 1 2 ''gaussian'' 10 (1 / 2) (1 / 100) None ''pca'')"
  define S where "S = S0\<lparr>wts := Some [[Fin 5], [Fin 1]]\<rparr>"
  define T where "T = S0\<lparr>wts := Some [[NaN], [Fin 1]]\<rparr>"
  let ?W = "[[Fin 5], [Fin 1]]" and ?X = "[[Fin 0], [Fin 2]]"
  let ?V = "[[NaN], [Fin 1]]" and ?Y = "[[Fin 1]]"
  have W: "wts S = Some ?W" "?W \<noteq> []" by (simp_all add: S_def)
  have rW: "\<forall>w\<in>set ?W. length w = 1" and rX: "\<forall>x\<in>set ?X. length x = 1" by simp_all
  from calc_BMUs_nearest[OF W rW rX, of exact_ops]
  obtain b where b: "calc_BMUs_by exact_ops S ?X = Inr b" "length b = length ?X"
    and all: "\<forall>i<length ?X. b ! i < length ?W
                \<and> ((\<forall>j<length ?W. \<not> isnan (dist2_by exact_ops (?X ! i) (?W ! j) 1)) \<longrightarrow>
                     (\<forall>j<length ?W. fle (dist2_by exact_ops (?X ! i) (?W ! (b ! i)) 1)
                                        (dist2_by exact_ops (?X ! i) (?W ! j) 1))
                   \<and> (\<forall>j<b ! i. \<not> fle (dist2_by exact_ops (?X ! i) (?W ! j) 1)
                                        (dist2_by exact_ops (?X ! i) (?W ! (b ! i)) 1)))
                \<and> ((\<exists>j<length ?W. isnan (dist2_by exact_ops (?X ! i) (?W ! j) 1)) \<longrightarrow>
                     isnan (dist2_by exact_ops (?X ! i) (?W ! (b ! i)) 1)
                   \<and> (\<forall>j<b ! i. \<not> isnan (dist2_by exact_ops (?X ! i) (?W ! j) 1)))"
    by (elim exE conjE) (rule that)
  have d: "dist2_by exact_ops [Fin 0] [Fin 5] 1 = Fin 25" "dist2_by exact_ops [Fin 0] [Fin 1] 1 = Fin 1"
    "dist2_by exact_ops [Fin 2] [Fin 5] 1 = Fin 9" "dist2_by exact_ops [Fin 2] [Fin 1] 1 = Fin 1"
    "dist2_by exact_ops [Fin 1] [NaN] 1 = NaN" "dist2_by exact_ops [Fin 1] [Fin 1] 1 = Fin 0"
    by (simp_all add: dist2_by_def exact_ops_def fsub_def)
  have nn: "\<forall>j<length ?W. \<not> isnan (dist2_by exact_ops (?X ! i) (?W ! j) 1)" if "i < 2" for i
    using that d by (auto simp: less_Suc_eq isnan_def numeral_2_eq_2)
  have b0: "b ! 0 = 1"
  proof -
    have "b ! 0 < 2" and "\<forall>j<2. fle (dist2_by exact_ops [Fin 0] (?W ! (b ! 0)) 1)
                                     (dist2_by exact_ops [Fin 0] (?W ! j) 1)"
      using all[rule_format, of 0] nn[of 0] by simp_all
    then show ?thesis using d by (cases "b ! 0 = 0") (auto simp: less_Suc_eq numeral_2_eq_2)
  qed
  have b1: "b ! 1 = 1"
  proof -
    have "b ! 1 < 2" and "\<forall>j<2. fle (dist2_by exact_ops [Fin 2] (?W ! (b ! 1)) 1)
                                     (dist2_by exact_ops [Fin 2] (?W ! j) 1)"
      using all[rule_format, of 1] nn[of 1] by simp_all
    then show ?thesis using d by (cases "b ! 1 = 0") (auto simp: less_Suc_eq numeral_2_eq_2)
  qed
  have bb: "b = [1, 1]" using b(2) b0 b1 by (intro nth_equalityI) (auto simp: less_Suc_eq numeral_2_eq_2)
  have V: "wts T = Some ?V" "?V \<noteq> []" by (simp_all add: T_def)
  have rV: "\<forall>w\<in>set ?V. length w = 1" and rY: "\<forall>x\<in>set ?Y. length x = 1" by simp_all
  from calc_BMUs_nearest[OF V rV rY, of exact_ops]
  obtain c where c: "calc_BMUs_by exact_ops T ?Y = Inr c" "length c = length ?Y"
    and alln: "\<forall>i<length ?Y. c ! i < length ?V
                \<and> ((\<forall>j<length ?V. \<not> isnan (dist2_by exact_ops (?Y ! i) (?V ! j) 1)) \<longrightarrow>
                     (\<forall>j<length ?V. fle (dist2_by exact_ops (?Y ! i) (?V ! (c ! i)) 1)
                                        (dist2_by exact_ops (?Y ! i) (?V ! j) 1))
                   \<and> (\<forall>j<c ! i. \<not> fle (dist2_by exact_ops (?Y ! i) (?V ! j) 1)
                                        (dist2_by exact_ops (?Y ! i) (?V ! (c ! i)) 1)))
                \<and> ((\<exists>j<length ?V. isnan (dist2_by exact_ops (?Y ! i) (?V ! j) 1)) \<longrightarrow>
                     isnan (dist2_by exact_ops (?Y ! i) (?V ! (c ! i)) 1)
                   \<and> (\<forall>j<c ! i. \<not> isnan (dist2_by exact_ops (?Y ! i) (?V ! j) 1)))"
    by (elim exE conjE) (rule that)
  have ex: "\<exists>j<length ?V. isnan (dist2_by exact_ops (?Y ! 0) (?V ! j) 1)"
    using d(5) by (auto simp: isnan_def)
  have c0: "c ! 0 = 0"
  proof -
    have "c ! 0 < 2" and "isnan (dist2_by exact_ops [Fin 1] (?V ! (c ! 0)) 1)"
      using alln[rule_format, of 0] ex by simp_all
    then show ?thesis using d by (cases "c ! 0 = 0") (auto simp: less_Suc_eq numeral_2_eq_2 isnan_def)
  qed
  have cc: "c = [0]" using c(2) c0 by (intro nth_equalityI) auto
  show ?thesis using b(1) bb c(1) cc d unfolding S_def T_def S0_def by (simp add: isnan_def)
qed

text \<open>
  C2 (counterexample). With a not-a-number in the weights of neuron 1, the sample
  at 0 is assigned to neuron 1, although neuron 0 is at the squared distance 25
  and the distance to neuron 1 is a not-a-number, which is below nothing.
\<close>

theorem calc_BMUs_nan_weight:
  "calc_BMUs ((projr (SOM_init 1 2 ''gaussian'' 10 (1 / 2) (1 / 100) None ''pca''))
                \<lparr>wts := Some [[Fin 5], [NaN]]\<rparr>) [[Fin 0]] = Inr [1]
   \<and> dist2 [Fin 0] [Fin 5] 1 = Fin 25 \<and> dist2 [Fin 0] [NaN] 1 = NaN
   \<and> \<not> fle (dist2 [Fin 0] [NaN] 1) (dist2 [Fin 0] [Fin 5] 1)"
  by (simp add: calc_BMUs_exact sqdists_exact sqdist_exact bcast2_def argmin_def isnan_def
        dist2_exact fsub_def)

section \<open>What the methods change\<close>

lemma same_config_refl: "same_config s s"
  by (simp add: same_config_def)

lemma same_config_trans: "same_config s s1 \<Longrightarrow> same_config s1 s2 \<Longrightarrow> same_config s s2"
  by (simp add: same_config_def)

lemma same_config_wts: "same_config s (s\<lparr>wts := w\<rparr>)"
  by (simp add: same_config_def)

lemma make_kernels_frame:
  assumes "make_kernels s = (s', out, r)"
  shows "same_config s s'" "wts s' = wts s" "bmus s' = bmus s" "dmat s' = dmat s"
    "inertia s' = inertia s"
  using assms by (auto simp: make_kernels_def same_config_def split: sum.splits if_splits)

lemma epoch_step_frame:
  assumes "epoch_step s X i = (s', r)"
  shows "same_config s s'" "kernels s' = kernels s" "bmus s' = bmus s" "dmat s' = dmat s"
    "inertia s' = inertia s"
  using assms
  by (auto simp: epoch_step_def Let_def same_config_def split: sum.splits option.splits if_splits)

lemma epochs_frame:
  assumes "epochs s X es = (s', r)"
  shows "same_config s s' \<and> kernels s' = kernels s \<and> bmus s' = bmus s \<and> dmat s' = dmat s
         \<and> inertia s' = inertia s"
  using assms
proof (induction es arbitrary: s)
  case Nil
  then show ?case by (simp add: same_config_refl)
next
  case (Cons i es)
  obtain s1 r1 where st: "epoch_step s X i = (s1, r1)" by (cases "epoch_step s X i")
  note f1 = epoch_step_frame[OF st]
  show ?case
  proof (cases r1)
    case (Inl e)
    then have "s' = s1" using Cons.prems st by simp
    then show ?thesis using f1 by simp
  next
    case (Inr u)
    then have "epochs s1 X es = (s', r)" using Cons.prems st by simp
    from Cons.IH[OF this] show ?thesis using f1 same_config_trans by auto
  qed
qed

lemma finalize_frame:
  assumes "finalize s X = (s', r)"
  shows "same_config s s'" "kernels s' = kernels s" "wts s' = wts s"
  using assms by (auto simp: finalize_def Let_def same_config_def split: sum.splits option.splits)

lemma train_frame:
  assumes "train s X = (s', out, r)"
  shows "same_config s s'"
proof -
  obtain s1 out1 r1 where mk: "make_kernels s = (s1, out1, r1)" by (cases "make_kernels s") auto
  note f1 = make_kernels_frame(1)[OF mk]
  show ?thesis
  proof (cases r1)
    case (Inl e)
    then have "s' = s1" using assms mk by (simp add: train_def)
    then show ?thesis using f1 by simp
  next
    case (Inr u)
    obtain s2 r2 where ep: "epochs s1 X [0..<nat (n_epochs s1)] = (s2, r2)"
      by (cases "epochs s1 X [0..<nat (n_epochs s1)]")
    have f2: "same_config s1 s2" using epochs_frame[OF ep] by simp
    show ?thesis
    proof (cases r2)
      case (Inl e)
      then have "s' = s2" using assms mk ep Inr by (simp add: train_def)
      then show ?thesis using f1 f2 same_config_trans by blast
    next
      case Inr2: (Inr u2)
      obtain s3 r3 where fz: "finalize s2 X = (s3, r3)" by (cases "finalize s2 X")
      have f3: "same_config s2 s3" using finalize_frame(1)[OF fz] .
      have "s' = s3" using assms mk ep Inr Inr2 fz by (simp add: train_def)
      then show ?thesis using f1 f2 f3 same_config_trans by blast
    qed
  qed
qed

lemma fit_frame:
  assumes "fit s X d = (s', out, r)"
  shows "same_config s s'"
proof -
  have w: "same_config s s'" if "train (s\<lparr>wts := w\<rparr>) X = (s', out, r)" for w
    using train_frame[OF that] same_config_wts[of s w] same_config_trans by blast
  show ?thesis using assms w
    by (auto simp: fit_def same_config_refl split: if_splits sum.splits)
qed

lemma predict_frame: "fst (predict s X) = s"
  by (simp add: predict_def)

lemma SOM_cluster_predict_frame: "fst (SOM_cluster_predict c X) = c"
  by (simp add: SOM_cluster_predict_def split: sum.splits)

lemma SOM_cluster_fit_base:
  assumes "fit c X d1 = (c1, out1, r1)"
  shows "d2mat (fst (SOM_cluster_fit c X y d1 d2 pick)) = d2mat c1"
    and "wts (fst (SOM_cluster_fit c X y d1 d2 pick)) = wts c1"
    and "bmus (fst (SOM_cluster_fit c X y d1 d2 pick)) = bmus c1"
    and "dmat (fst (SOM_cluster_fit c X y d1 d2 pick)) = dmat c1"
  using assms
  by (auto simp: SOM_cluster_fit_def Let_def split: sum.splits option.splits prod.splits)

lemma SOM_cluster_fit_d2mat: "d2mat (fst (SOM_cluster_fit c X y d1 d2 pick)) = d2mat c"
proof -
  obtain c1 out1 r1 where f: "fit c X d1 = (c1, out1, r1)" by (cases "fit c X d1") auto
  have "d2mat c1 = d2mat c" using fit_frame[OF f] by (simp add: same_config_def)
  then show ?thesis using SOM_cluster_fit_base(1)[OF f] by simp
qed

lemma make_kernels_d2mat: "d2mat (fst (make_kernels t)) = d2mat t"
  using make_kernels_frame(1)[of t] by (cases "make_kernels t") (simp add: same_config_def)

lemma fit_d2mat: "d2mat (fst (fit t X d)) = d2mat t"
  using fit_frame[of t X d] by (cases "fit t X d") (simp add: same_config_def)

text \<open>
  C5. For \<open>rows, cols >= 1\<close> the constructor builds the square matrix of the
  squared Euclidean distances between the lattice positions \<open>(i // cols, i % cols)\<close>:
  its diagonal is zero, it is symmetric and its entries are non-negative integers.
  No method changes it: not \<open>make_kernels\<close>, \<open>fit\<close> or \<open>predict\<close>, of the
  trainer or of the clusterer, whatever they are given and however they end.
  (The one lattice the constructor builds no matrix for is the one \<open>np.sqrt\<close>
  refuses: no \<open>Rmax\<close> given and \<open>(cols-1)^2 + (rows-1)^2\<close> from \<open>2^64\<close> on, more
  than \<open>2^32\<close> neurons.)
\<close>

theorem d2mat_lattice_distance:
  assumes "1 \<le> nr" "1 \<le> nc"
      and "Rm = None \<longrightarrow> (nc - 1)\<^sup>2 + (nr - 1)\<^sup>2 < 2 ^ 64"
  shows "\<exists>s. SOM_init nr nc nbh ne h0 hN Rm ini = Inr s \<and> length (d2mat s) = nat (nr * nc)
           \<and> (\<forall>i<nat (nr * nc). length (d2mat s ! i) = nat (nr * nc) \<and> d2mat s ! i ! i = 0
                \<and> (\<forall>j<nat (nr * nc).
                      d2mat s ! i ! j = (int i div nc - int j div nc)\<^sup>2 + (int i mod nc - int j mod nc)\<^sup>2
                    \<and> d2mat s ! i ! j = d2mat s ! j ! i \<and> 0 \<le> d2mat s ! i ! j))
           \<and> (\<forall>(t::som) X d. d2mat (fst (make_kernels t)) = d2mat t
                \<and> d2mat (fst (fit t X d)) = d2mat t \<and> d2mat (fst (predict t X)) = d2mat t)
           \<and> (\<forall>(c::som_cluster) X y d1 d2 pick. d2mat (fst (make_kernels c)) = d2mat c
                \<and> d2mat (fst (SOM_cluster_fit c X y d1 d2 pick)) = d2mat c
                \<and> d2mat (fst (SOM_cluster_predict c X)) = d2mat c)"
proof -
  obtain s where s: "SOM_init nr nc nbh ne h0 hN Rm ini = Inr s"
    using SOM_init_returns[OF assms(3)] by blast
  have geo: "\<forall>i<nat (nr * nc). length (d2mat s ! i) = nat (nr * nc) \<and> d2mat s ! i ! i = 0
                \<and> (\<forall>j<nat (nr * nc).
                      d2mat s ! i ! j = (int i div nc - int j div nc)\<^sup>2 + (int i mod nc - int j mod nc)\<^sup>2
                    \<and> d2mat s ! i ! j = d2mat s ! j ! i \<and> 0 \<le> d2mat s ! i ! j)"
    using d2mat_nth_length[OF s] d2mat_diag[OF s] d2mat_entry[OF s] d2mat_sym[OF s]
      d2mat_nonneg[OF s] by blast
  have "\<forall>(t::som) X d. d2mat (fst (make_kernels t)) = d2mat t
                \<and> d2mat (fst (fit t X d)) = d2mat t \<and> d2mat (fst (predict t X)) = d2mat t"
    by (simp add: make_kernels_d2mat fit_d2mat predict_frame)
  moreover have "\<forall>(c::som_cluster) X y d1 d2 pick. d2mat (fst (make_kernels c)) = d2mat c
                \<and> d2mat (fst (SOM_cluster_fit c X y d1 d2 pick)) = d2mat c
                \<and> d2mat (fst (SOM_cluster_predict c X)) = d2mat c"
    by (simp add: make_kernels_d2mat SOM_cluster_fit_d2mat SOM_cluster_predict_frame)
  ultimately show ?thesis using s d2mat_length[OF s] geo by blast
qed

text \<open>
  C5 (witness): the lattice of 1 row and 3 columns, whose neurons 0 and 2 are at
  the squared distance 4, before and after a fit on one sample.
\<close>

theorem d2mat_lattice_distance_witness:
  "(1::int) \<le> 1 \<and> (1::int) \<le> 3 \<and> ((3::int) - 1)\<^sup>2 + (1 - 1)\<^sup>2 < 2 ^ 64
   \<and> (\<exists>s. SOM_init 1 3 ''gaussian'' 10 (1 / 2) (1 / 100) None ''random'' = Inr s
          \<and> length (d2mat s) = 3 \<and> d2mat s ! 0 ! 2 = 4 \<and> d2mat s ! 2 ! 0 = 4 \<and> d2mat s ! 1 ! 1 = 0
          \<and> d2mat (fst (fit s [[Fin 0]] \<lparr>random_wts = [[Fin 0], [Fin (1 / 4)], [Fin (1 / 2)]],
                                            pca_wts = Inl LinAlgError\<rparr>)) ! 0 ! 2 = 4)"
proof -
  have h: "(1::int) \<le> 1" "(1::int) \<le> 3" by simp_all
  have bd: "((3::int) - 1)\<^sup>2 + (1 - 1)\<^sup>2 < 2 ^ 64" by simp
  then have hb: "(None :: real option) = None \<longrightarrow> ((3::int) - 1)\<^sup>2 + (1 - 1)\<^sup>2 < 2 ^ 64"
    by simp
  from d2mat_lattice_distance[OF h hb, where nbh="''gaussian''" and ne=10 and ?h0.0="1 / 2"
      and hN="1 / 100" and ini="''random''"]
  obtain s where s: "SOM_init 1 3 ''gaussian'' 10 (1 / 2) (1 / 100) None ''random'' = Inr s"
    and len: "length (d2mat s) = nat (1 * 3)"
    and geo: "\<forall>i<nat (1 * 3). length (d2mat s ! i) = nat (1 * 3) \<and> d2mat s ! i ! i = 0
                \<and> (\<forall>j<nat (1 * 3).
                      d2mat s ! i ! j = (int i div 3 - int j div 3)\<^sup>2 + (int i mod 3 - int j mod 3)\<^sup>2
                    \<and> d2mat s ! i ! j = d2mat s ! j ! i \<and> 0 \<le> d2mat s ! i ! j)"
    and fr: "\<forall>(t::som) X d. d2mat (fst (make_kernels t)) = d2mat t
                \<and> d2mat (fst (fit t X d)) = d2mat t \<and> d2mat (fst (predict t X)) = d2mat t"
    by (elim exE conjE) (rule that)
  have g0: "\<forall>j<3. d2mat s ! 0 ! j = (int 0 div 3 - int j div 3)\<^sup>2 + (int 0 mod 3 - int j mod 3)\<^sup>2"
    using geo[rule_format, of 0] by simp
  have g2: "\<forall>j<3. d2mat s ! 2 ! j = (int 2 div 3 - int j div 3)\<^sup>2 + (int 2 mod 3 - int j mod 3)\<^sup>2"
    using geo[rule_format, of 2] by simp
  have a: "d2mat s ! 0 ! 2 = 4" using g0[rule_format, of 2] by simp
  have b: "d2mat s ! 2 ! 0 = 4" using g2[rule_format, of 0] by simp
  have c: "d2mat s ! 1 ! 1 = 0" using geo[rule_format, of 1] by simp
  have "d2mat (fst (fit s [[Fin 0]] \<lparr>random_wts = [[Fin 0], [Fin (1 / 4)], [Fin (1 / 2)]],
                                     pca_wts = Inl LinAlgError\<rparr>)) = d2mat s"
    using fr by blast
  then show ?thesis using s len a b c bd by auto
qed

section \<open>Fit and predict\<close>

lemma calc_BMUs_wts: "wts s = wts t \<Longrightarrow> calc_BMUs s X = calc_BMUs t X"
  by (simp add: calc_BMUs_exact)

lemma finalize_success:
  assumes "finalize s X = (s', Inr u)"
  shows "\<exists>b W D. calc_BMUs s X = Inr b \<and> wts s = Some W \<and> sqdists W W = Inr D
           \<and> bmus s' = Some b \<and> wts s' = Some W \<and> dmat s' = Some (map (map fsqrt) D)"
  using assms by (auto simp: finalize_def Let_def split: sum.splits option.splits)

lemma train_success:
  assumes "train s X = (s', out, Inr u)"
  shows "\<exists>s1 s2 u1 u2. make_kernels s = (s1, out, Inr u1)
           \<and> epochs s1 X [0..<nat (n_epochs s1)] = (s2, Inr u2) \<and> finalize s2 X = (s', Inr u)"
  using assms by (auto simp: train_def split: sum.splits prod.splits)

lemma fit_success:
  assumes "fit s X d = (s', out, Inr u)" "initial s = ''random'' \<or> initial s = ''pca''"
  shows "\<exists>W0. (initial s = ''random'' \<and> 0 \<le> n_rows s * n_cols s \<and> W0 = random_wts d
               \<or> initial s \<noteq> ''random'' \<and> initial s = ''pca'' \<and> pca_wts d = Inr W0)
             \<and> train (s\<lparr>wts := Some W0\<rparr>) X = (s', out, Inr u)"
  using assms by (auto simp: fit_def split: if_splits sum.splits)

lemma fit_invalid_initial:
  assumes "initial s \<noteq> ''random''" "initial s \<noteq> ''pca''"
  shows "fit s X d = (s, [''initial must be random or pca''], Inr ())"
  using assms by (simp add: fit_def)

lemma fit_sets_bmus:
  assumes "fit s X d = (s', out, Inr u)" "initial s = ''random'' \<or> initial s = ''pca''"
  shows "\<exists>b W. bmus s' = Some b \<and> wts s' = Some W \<and> calc_BMUs s' X = Inr b"
proof -
  obtain W0 where "train (s\<lparr>wts := Some W0\<rparr>) X = (s', out, Inr u)"
    using fit_success[OF assms] by blast
  then obtain s2 where "finalize s2 X = (s', Inr u)" using train_success by blast
  then obtain b W where b: "calc_BMUs s2 X = Inr b" "wts s2 = Some W" "bmus s' = Some b"
    "wts s' = Some W"
    using finalize_success by blast
  have "calc_BMUs s' X = Inr b" using calc_BMUs_wts[of s' s2 X] b by simp
  then show ?thesis using b by blast
qed

text \<open>The definitions a run of the methods on concrete inputs unfolds.\<close>

lemmas run_defs = SOM_init_def Let_def upto.simps fit_def train_def make_kernels_def sigs_def
  linspace_def kernel_tensor_def bubble_k_def epoch_step_def calc_BMUs_exact sqdists_exact
  sqdist_exact bcast2_def argmin_def isnan_def take_rows_def ncols_def fsub_def finalize_def
  inf_of_sign_def predict_def

text \<open>
  C6 (the failing input). \<open>predict\<close> takes an object for fitted when its weights
  are set, and \<open>fit\<close> sets them before it does anything else. A new object with
  an unknown neighbourhood family: \<open>fit\<close> sets the initial weights and raises an
  \<open>AttributeError\<close> at the first epoch (see C7); on the object it leaves,
  \<open>predict\<close> returns \<open>None\<close> and prints nothing, although no fit has succeeded.
\<close>

theorem predict_silent_after_failed_fit:
  "fit (projr (SOM_init 1 2 ''cone'' 1 (1 / 2) (1 / 100) None ''random''))
       [[Fin 0], [Fin 2]] \<lparr>random_wts = [[Fin 0], [Fin (1 / 2)]], pca_wts = Inl LinAlgError\<rparr>
    = ((projr (SOM_init 1 2 ''cone'' 1 (1 / 2) (1 / 100) None ''random''))
         \<lparr>wts := Some [[Fin 0], [Fin (1 / 2)]]\<rparr>, [''Invalid neighbourhood''], Inl AttributeError)
   \<and> predict ((projr (SOM_init 1 2 ''cone'' 1 (1 / 2) (1 / 100) None ''random''))
         \<lparr>wts := Some [[Fin 0], [Fin (1 / 2)]]\<rparr>) [[Fin 0], [Fin 2]]
      = ((projr (SOM_init 1 2 ''cone'' 1 (1 / 2) (1 / 100) None ''random''))
         \<lparr>wts := Some [[Fin 0], [Fin (1 / 2)]]\<rparr>, [], Inr None)"
  by (simp add: run_defs)

text \<open>
  C7 (the failing input). A new object with the unknown family \<open>cone\<close>, every
  other parameter at its default but the initialiser mode \<open>random\<close>: \<open>fit\<close> has
  set the weights when \<open>make_kernels\<close> prints its message and returns; \<open>fit\<close>
  does not look at what it returned, goes on, and raises an \<open>AttributeError\<close> at
  the first epoch, the object having no kernels. With no epoch to run, the same
  call ends like a fit that succeeded, with BMUs, distance matrix and inertia of
  the initial weights. (An unknown initialiser mode, tested in the same method,
  makes \<open>fit\<close> return before it changes anything: \<open>fit_invalid_initial\<close>.)
\<close>

theorem fit_invalid_neighbourhood_mutates:
  "fit (projr (SOM_init 1 2 ''cone'' 10 (1 / 2) (1 / 100) None ''random''))
       [[Fin 0], [Fin 2]] \<lparr>random_wts = [[Fin 0], [Fin (1 / 2)]], pca_wts = Inl LinAlgError\<rparr>
    = ((projr (SOM_init 1 2 ''cone'' 10 (1 / 2) (1 / 100) None ''random''))
         \<lparr>wts := Some [[Fin 0], [Fin (1 / 2)]]\<rparr>, [''Invalid neighbourhood''], Inl AttributeError)
   \<and> fit (projr (SOM_init 1 2 ''cone'' 0 (1 / 2) (1 / 100) None ''random''))
       [[Fin 0], [Fin 2]] \<lparr>random_wts = [[Fin 0], [Fin (1 / 2)]], pca_wts = Inl LinAlgError\<rparr>
    = ((projr (SOM_init 1 2 ''cone'' 0 (1 / 2) (1 / 100) None ''random''))
         \<lparr>wts := Some [[Fin 0], [Fin (1 / 2)]], bmus := Some [0, 1],
          dmat := Some [[Fin 0, Fin (1 / 2)], [Fin (1 / 2), Fin 0]], inertia := Some (Fin (9 / 4))\<rparr>,
       [''Invalid neighbourhood''], Inr ())"
  by (simp add: run_defs upt_conv_Cons real_sqrt_divide)

section \<open>The weight update\<close>

lemma fadd_zero_right: "fadd x (Fin 0) = x"
  by (cases x) auto



lemma make_kernels_success:
  assumes "make_kernels s0 = (s1, [], Inr u)"
  shows "\<exists>kf sg. sigs s0 = Inr sg \<and> kernels s1 = Some (kernel_tensor kf sg (d2mat s0))
           \<and> (\<forall>sig d r. kf sig d = Fin r \<longrightarrow> 0 \<le> r)"
proof -
  obtain sg where sg: "sigs s0 = Inr sg"
    using assms by (cases "sigs s0") (auto simp: make_kernels_def)
  consider "neighbourhood s0 = ''bubble''" | "neighbourhood s0 = ''linear''"
    | "neighbourhood s0 = ''exponential''" | "neighbourhood s0 = ''gaussian''"
    | "neighbourhood s0 \<noteq> ''bubble''" "neighbourhood s0 \<noteq> ''linear''"
      "neighbourhood s0 \<noteq> ''exponential''" "neighbourhood s0 \<noteq> ''gaussian''"
    by blast
  then show ?thesis
  proof cases
    case 1
    then have "kernels s1 = Some (kernel_tensor bubble_k sg (d2mat s0))"
      using assms make_kernels_bubble[OF sg 1] by auto
    then show ?thesis using sg bubble_k_nonneg by blast
  next
    case 2
    then have "kernels s1 = Some (kernel_tensor linear_k sg (d2mat s0))"
      using assms make_kernels_linear[OF sg 2] by auto
    then show ?thesis using sg linear_k_nonneg by blast
  next
    case 3
    then have "kernels s1 = Some (kernel_tensor exponential_k sg (d2mat s0))"
      using assms make_kernels_exponential[OF sg 3] by auto
    then show ?thesis using sg exponential_k_nonneg by blast
  next
    case 4
    then have "kernels s1 = Some (kernel_tensor gaussian_k sg (d2mat s0))"
      using assms make_kernels_gaussian[OF sg 4] by auto
    then show ?thesis using sg gaussian_k_nonneg by blast
  next
    case 5
    then show ?thesis using assms make_kernels_invalid[OF sg 5] by simp
  qed
qed

lemma sigs_length: "sigs s = Inr sg \<Longrightarrow> length sg = nat (n_epochs s)"
proof -
  assume a: "sigs s = Inr sg"
  then have "0 \<le> n_epochs s" by (auto simp: sigs_def linspace_def split: if_splits)
  then show ?thesis using linspace_Inr[of "n_epochs s" "Rmax s" "1 / 2"] a by (auto simp: sigs_def)
qed






lemma epoch_step_success:
  assumes "epoch_step s X e = (s', Inr u)"
  shows "\<exists>b K. calc_BMUs s X = Inr b \<and> kernels s = Some K \<and> e < length K
           \<and> (\<forall>i<length b. b ! i < length (K ! e))
           \<and> wts s' = Some (map2 (\<lambda>nr d. map (\<lambda>n. fdiv n d) nr)
                (foldr (map2 (map2 fadd))
                   (map2 (\<lambda>x kr. map (\<lambda>kj. map (\<lambda>xc. fmul xc kj) x) kr) X (map (\<lambda>i. K ! e ! i) b))
                   (replicate (ncols (K ! e)) (replicate (ncols X) (Fin 0))))
                (foldr (map2 fadd) (map (\<lambda>i. K ! e ! i) b) (replicate (ncols (K ! e)) (Fin 0))))"
  using assms
  by (auto simp: epoch_step_def Let_def take_rows_def list_all_length
           split: sum.splits option.splits if_splits)


















section \<open>The clusterer\<close>


lemma fit_more:
  assumes "fit c X d = (c1, out, r)"
  shows "n_clusters c1 = n_clusters c" "neuron_to_label c1 = neuron_to_label c"
    "labels c1 = labels c" "n_rows c1 = n_rows c" "n_cols c1 = n_cols c"
proof -
  have sc: "same_config c c1" using fit_frame[OF assms] .
  then have m: "som.more c1 = som.more c" by (simp add: same_config_def)
  show "n_clusters c1 = n_clusters c" "neuron_to_label c1 = neuron_to_label c"
    "labels c1 = labels c"
    using m by (cases c; cases c1; simp)+
  show "n_rows c1 = n_rows c" "n_cols c1 = n_cols c" using sc by (simp_all add: same_config_def)
qed

text \<open>The definitions a run of the clusterer on concrete inputs unfolds.\<close>

lemmas cluster_run_defs = SOM_cluster_init_def SOM_cluster_fit_def som_cluster.defs som.defs
  upt_conv_Cons gaussian_k_def assign_all_def



section \<open>The supervised labels\<close>

text \<open>The definitions a run of the supervised branch on concrete inputs unfolds.\<close>

lemmas vote_run_defs = backfill_def sort_lt_def labels_at_def np_unique_def sort_np_def
  argmax_def numeral_3_eq_3 numeral_2_eq_2

lemma argsort_first_inf_nan_inf:
  "argsort_first pick [PInf, NaN, PInf] = Inr 0 \<or> argsort_first pick [PInf, NaN, PInf] = Inr 2"
proof -
  have "pick [PInf, NaN, PInf] < 3 \<Longrightarrow> pick [PInf, NaN, PInf] \<noteq> 0
        \<Longrightarrow> pick [PInf, NaN, PInf] \<noteq> 2 \<Longrightarrow> pick [PInf, NaN, PInf] = 1"
    by arith
  then show ?thesis
    by (auto simp: argsort_first_def sort_lt_def isnan_def Let_def nth_Cons split: nat.splits)
qed

text \<open>
  C9 (the failing input). Three neurons in a row, the bubble family, two epochs and
  the default \<open>Rmax\<close> 2, so that the radii are 2 and 0.5; the samples 0 and 10
  with the labels 0 and 1. After the first epoch every weight is 5 and both
  samples are at neuron 0; in the second epoch the kernel is the identity, the
  neurons 1 and 2 have a zero denominator and get a not-a-number. Then \<open>argmin\<close>
  puts both samples at neuron 1, the only one to get a label, and the distance of
  every neuron to it is a not-a-number: the sort puts it last, behind the
  infinities of the unlabelled neurons 0 and 2. Whichever of the two the sort puts
  first, it has no label to give, and the neurons 0 and 2 stay unlabelled after a
  fit that ends without exception.
\<close>

theorem supervised_labels_nan_weights:
  "\<forall>pick. SOM_cluster_fit
       (projr (SOM_cluster_init 2 1 3 ''bubble'' 2 (1 / 2) (1 / 100) None ''random''))
       [[Fin 0], [Fin 10]] (Some [Fin 0, Fin 1])
       \<lparr>random_wts = [[Fin 0], [Fin (1 / 4)], [Fin (1 / 2)]], pca_wts = Inl LinAlgError\<rparr>
       \<lparr>random_wts = [], pca_wts = Inl LinAlgError\<rparr> pick
     = (projr (SOM_cluster_init 2 1 3 ''bubble'' 2 (1 / 2) (1 / 100) None ''random'')
          \<lparr>wts := Some [[Fin 5], [NaN], [NaN]],
           kernels := kernels (fst (make_kernels
              (projr (SOM_cluster_init 2 1 3 ''bubble'' 2 (1 / 2) (1 / 100) None ''random'')))),
           bmus := Some [1, 1],
           dmat := Some [[Fin 0, NaN, NaN], [NaN, NaN, NaN], [NaN, NaN, NaN]],
           inertia := Some NaN,
           neuron_to_label := [NaN, Fin 0, NaN]\<rparr>, [], Inr ())"
proof
  fix pick :: "npfloat list \<Rightarrow> nat"
  show "SOM_cluster_fit
       (projr (SOM_cluster_init 2 1 3 ''bubble'' 2 (1 / 2) (1 / 100) None ''random''))
       [[Fin 0], [Fin 10]] (Some [Fin 0, Fin 1])
       \<lparr>random_wts = [[Fin 0], [Fin (1 / 4)], [Fin (1 / 2)]], pca_wts = Inl LinAlgError\<rparr>
       \<lparr>random_wts = [], pca_wts = Inl LinAlgError\<rparr> pick
     = (projr (SOM_cluster_init 2 1 3 ''bubble'' 2 (1 / 2) (1 / 100) None ''random'')
          \<lparr>wts := Some [[Fin 5], [NaN], [NaN]],
           kernels := kernels (fst (make_kernels
              (projr (SOM_cluster_init 2 1 3 ''bubble'' 2 (1 / 2) (1 / 100) None ''random'')))),
           bmus := Some [1, 1],
           dmat := Some [[Fin 0, NaN, NaN], [NaN, NaN, NaN], [NaN, NaN, NaN]],
           inertia := Some NaN,
           neuron_to_label := [NaN, Fin 0, NaN]\<rparr>, [], Inr ())"
    using argsort_first_inf_nan_inf[of pick]
    by (elim disjE) (simp_all add: cluster_run_defs run_defs vote_run_defs)
qed

end
